theory Spec2Isabelle
  imports Complex_Main "HOL-Library.Sublist"
begin

section \<open>Adaptive UDP ramp test (adaptive\_udp.py)\<close>

text \<open>
  A finite Python float is modelled by the rational it denotes (\<open>rat\<close>). Every float
  operation of the source (\<open>+\<close>, \<open>-\<close>, \<open>*\<close>, \<open>/\<close>, \<open>float(s)\<close>) is the exact operation
  followed by \<open>fl\<close>, the rounding to the nearest IEEE binary64 value, ties to even;
  comparisons are exact. An int operand of a float operation is converted first, which is
  \<open>fl\<close> again. Strings are \<open>string\<close>; only the one-byte characters are covered.

  \<open>fl\<close> has no largest exponent: where Python gives \<open>inf\<close> it gives a value of magnitude
  at least \<open>2 ^ 1024\<close>. The bandwidth arguments are checked for this when they are
  parsed (\<open>NonFinite\<close>); inside the controller such a value can only arise from finite
  operands and is then only compared with finite floats, where it orders as the infinity
  does. \<open>nan\<close> and a negative zero are not represented.
\<close>

subsection \<open>IEEE binary64 rounding\<close>

definition round_half_even :: "rat \<Rightarrow> int" where
  "round_half_even r =
     (let f = \<lfloor>r\<rfloor>; d = r - of_int f
      in if d < 1 / 2 then f else if 1 / 2 < d then f + 1 else if even f then f else f + 1)"

function bit_length :: "int \<Rightarrow> int" where
  \<comment> \<open>the number of binary digits of a positive integer\<close>
  "bit_length n = (if n \<le> 0 then 0 else 1 + bit_length (n div 2))"
  by pat_completeness auto
termination
  by (relation "measure nat") auto

declare bit_length.simps [simp del]

definition pow2 :: "int \<Rightarrow> rat" where
  "pow2 k = (if 0 \<le> k then 2 ^ nat k else 1 / 2 ^ nat (- k))"

definition floor_log2 :: "rat \<Rightarrow> int" where
  \<comment> \<open>for positive x, the k with \<open>2 ^ k \<le> x < 2 ^ (k + 1)\<close>\<close>
  "floor_log2 x =
     (let (p, q) = quotient_of x; k = bit_length p - bit_length q
      in if pow2 k \<le> x then k else k - 1)"

definition fl :: "rat \<Rightarrow> rat" where
  \<comment> \<open>round to 53 significant bits, or to a multiple of \<open>2 ^ -1074\<close> below the normal range\<close>
  "fl x =
     (if x = 0 then 0
      else (let e = max (floor_log2 \<bar>x\<bar> - 52) (- 1074)
            in of_int (round_half_even (x / pow2 e)) * pow2 e))"

definition overflows :: "rat \<Rightarrow> bool" where
  \<comment> \<open>a rounded value beyond the largest float: Python has \<open>inf\<close> there\<close>
  "overflows x = (if x = 0 then False else 1024 \<le> floor_log2 \<bar>x\<bar>)"

definition fadd :: "rat \<Rightarrow> rat \<Rightarrow> rat" where
  "fadd x y = fl (fl x + fl y)"

definition fsub :: "rat \<Rightarrow> rat \<Rightarrow> rat" where
  "fsub x y = fl (fl x - fl y)"

definition fmul :: "rat \<Rightarrow> rat \<Rightarrow> rat" where
  "fmul x y = fl (fl x * fl y)"

definition fdiv :: "rat \<Rightarrow> rat \<Rightarrow> rat" where
  "fdiv x y = fl (fl x / fl y)"

subsection \<open>Python built-ins used by the source\<close>

definition is_space :: "char \<Rightarrow> bool" where
  \<comment> \<open>the characters \<open>str.strip()\<close> removes, among the one-byte ones\<close>
  "is_space c = (of_char c \<in> {9, 10, 11, 12, 13, 28, 29, 30, 31, 32, 133, 160 :: nat})"

definition strip :: "string \<Rightarrow> string" where
  "strip s = rev (dropWhile is_space (rev (dropWhile is_space s)))"

definition lower_char :: "char \<Rightarrow> char" where
  \<comment> \<open>\<open>str.lower()\<close> on one character: the ASCII letters\<close>
  "lower_char c =
     (case map_of (zip ''ABCDEFGHIJKLMNOPQRSTUVWXYZ'' ''abcdefghijklmnopqrstuvwxyz'') c of
        Some l \<Rightarrow> l
      | None \<Rightarrow> c)"

definition lower :: "string \<Rightarrow> string" where
  "lower s = map lower_char s"

definition endswith :: "string \<Rightarrow> string \<Rightarrow> bool" where
  "endswith s t = suffix t s"

definition is_digit :: "char \<Rightarrow> bool" where
  "is_digit c = (let n = (of_char c :: nat) in 48 \<le> n \<and> n \<le> 57)"

definition digit_val :: "char \<Rightarrow> int" where
  "digit_val c = of_char c - 48"

definition int_of_digits :: "string \<Rightarrow> int" where
  "int_of_digits ds = foldl (\<lambda>a c. 10 * a + digit_val c) 0 ds"

definition pow10 :: "int \<Rightarrow> rat" where
  "pow10 k = (if 0 \<le> k then 10 ^ nat k else 1 / 10 ^ nat (- k))"

definition split_sign :: "string \<Rightarrow> rat \<times> string" where
  "split_sign s =
     (case s of
        c # r \<Rightarrow> if c = CHR ''-'' then (- 1, r) else if c = CHR ''+'' then (1, r) else (1, s)
      | [] \<Rightarrow> (1, s))"

definition parse_exponent :: "string \<Rightarrow> int option" where
  \<comment> \<open>the part of a float literal after the mantissa: empty, or e/E, a sign, digits\<close>
  "parse_exponent s =
     (case s of
        [] \<Rightarrow> Some 0
      | c # r \<Rightarrow>
          if c = CHR ''e'' \<or> c = CHR ''E'' then
            (let (sg, ds) = split_sign r in
             if ds \<noteq> [] \<and> list_all is_digit ds
             then Some ((if sg < 0 then - 1 else 1) * int_of_digits ds)
             else None)
          else None)"

datatype pyfloat =
    Finite rat
  | NonFinite  \<comment> \<open>\<open>inf\<close>, \<open>-inf\<close> or \<open>nan\<close>: a float the model does not follow\<close>

definition finite_or_not :: "rat \<Rightarrow> pyfloat" where
  "finite_or_not x = (if overflows x then NonFinite else Finite x)"

definition is_float_space :: "char \<Rightarrow> bool" where
  \<comment> \<open>the characters \<open>float()\<close> strips: the ASCII white space, and the white space beyond
      ASCII; not the separators U+001C to U+001F that \<open>str.strip()\<close> removes\<close>
  "is_float_space c = (of_char c \<in> {9, 10, 11, 12, 13, 32, 133, 160 :: nat})"

definition strip_float :: "string \<Rightarrow> string" where
  "strip_float s = rev (dropWhile is_float_space (rev (dropWhile is_float_space s)))"

fun underscores_ok :: "char option \<Rightarrow> string \<Rightarrow> bool" where
  \<comment> \<open>every underscore stands between two digits; \<open>prev\<close> is the character before\<close>
  "underscores_ok prev [] = (prev \<noteq> Some CHR ''_'')"
| "underscores_ok prev (c # cs) =
     (if c = CHR ''_'' then
        (case prev of None \<Rightarrow> False | Some p \<Rightarrow> is_digit p \<and> underscores_ok (Some c) cs)
      else if prev = Some CHR ''_'' then is_digit c \<and> underscores_ok (Some c) cs
      else underscores_ok (Some c) cs)"

definition py_float :: "string \<Rightarrow> pyfloat option" where
  \<comment> \<open>\<open>float(s)\<close>: white space stripped, underscores between digits dropped, then a sign
      and either a spelling of infinity or nan, or digits with an optional fraction and an
      optional exponent, rounded to the nearest float. \<open>None\<close> is the \<open>ValueError\<close>.\<close>
  "py_float s =
     (let t = strip_float s in
      if \<not> underscores_ok None t then None
      else
        (let (sg, r0) = split_sign (filter (\<lambda>c. c \<noteq> CHR ''_'') t);
             ip = takeWhile is_digit r0;
             r1 = dropWhile is_digit r0;
             (fp, r2) = (case r1 of
                           c # r \<Rightarrow> if c = CHR ''.'' then (takeWhile is_digit r, dropWhile is_digit r)
                                    else ([], r1)
                         | [] \<Rightarrow> ([], r1))
         in if lower r0 = ''inf'' \<or> lower r0 = ''infinity'' \<or> lower r0 = ''nan''
            then Some NonFinite
            else if ip = [] \<and> fp = [] then None
            else (case parse_exponent r2 of
                    None \<Rightarrow> None
                  | Some e \<Rightarrow>
                      Some (finite_or_not
                        (fl (sg * of_int (int_of_digits (ip @ fp)) * pow10 (e - int (length fp))))))))"

definition digit_char :: "int \<Rightarrow> char" where
  "digit_char d =
     (if d = 0 then CHR ''0'' else if d = 1 then CHR ''1'' else if d = 2 then CHR ''2''
      else if d = 3 then CHR ''3'' else if d = 4 then CHR ''4'' else if d = 5 then CHR ''5''
      else if d = 6 then CHR ''6'' else if d = 7 then CHR ''7'' else if d = 8 then CHR ''8''
      else CHR ''9'')"

function str_digits :: "int \<Rightarrow> string" where
  \<comment> \<open>the decimal digits of a non-negative integer\<close>
  "str_digits n = (if n < 10 then [digit_char n] else str_digits (n div 10) @ [digit_char (n mod 10)])"
  by pat_completeness auto
termination
  by (relation "measure nat") auto

declare str_digits.simps [simp del]

definition str_int :: "int \<Rightarrow> string" where
  \<comment> \<open>\<open>str(i)\<close> of a Python int\<close>
  "str_int i = (if i < 0 then CHR ''-'' # str_digits (- i) else str_digits i)"

definition format_f :: "nat \<Rightarrow> rat \<Rightarrow> string" where
  \<comment> \<open>the format spec \<open>.{d}f\<close> applied to the float x: the exact value of x in fixed
      point with d decimals, rounded half to even\<close>
  "format_f d x =
     (let n = round_half_even (\<bar>x\<bar> * 10 ^ d);
          ip = str_digits (n div 10 ^ d);
          fp = str_digits (n mod 10 ^ d);
          body = (if d = 0 then ip else ip @ ''.'' @ replicate (d - length fp) CHR ''0'' @ fp)
      in if x < 0 then CHR ''-'' # body else body)"

definition join :: "string \<Rightarrow> string list \<Rightarrow> string" where
  \<comment> \<open>\<open>sep.join(xs)\<close>\<close>
  "join sep xs = (case xs of [] \<Rightarrow> [] | x # r \<Rightarrow> x @ concat (map (\<lambda>y. sep @ y) r))"

subsection \<open>Bandwidth value codec\<close>

definition parse_bps :: "string \<Rightarrow> pyfloat option" where
  "parse_bps v =
     (let s = lower (strip v) in
      if s = [] then None
      else
        (let (mult, s') =
               (if endswith s ''k'' then (10 ^ 3, butlast s)
                else if endswith s ''m'' then (10 ^ 6, butlast s)
                else if endswith s ''g'' then (10 ^ 9, butlast s)
                else if endswith s ''t'' then (10 ^ 12, butlast s)
                else (1 :: rat, s))
         in (case py_float s' of
               Some (Finite f) \<Rightarrow> Some (finite_or_not (fmul f mult))
             | Some NonFinite \<Rightarrow> Some NonFinite
             | None \<Rightarrow> None)))"

definition bps_to_str :: "rat \<Rightarrow> string" where
  "bps_to_str bps =
     (if 10 ^ 9 \<le> bps then format_f 3 (fdiv bps (10 ^ 9)) @ ''G''
      else if 10 ^ 6 \<le> bps then format_f 3 (fdiv bps (10 ^ 6)) @ ''M''
      else if 10 ^ 3 \<le> bps then format_f 3 (fdiv bps (10 ^ 3)) @ ''K''
      else format_f 0 bps)"

subsection \<open>Probe executor: \<open>run_iperf\<close> and \<open>extract_udp_stats\<close>\<close>

text \<open>
  The command-line arguments after \<open>argparse\<close>. The three bandwidth arguments are still
  strings; \<open>meta\<close> is the result of \<open>json.loads(args.meta)\<close>, \<open>None\<close> when it raises.
\<close>

datatype json = JNull | JBool bool | JNum rat | JStr string | JArr "json list" | JObj "(string \<times> json) list"

record args =
  server :: string
  port :: int
  direction :: string
  duration :: int
  parallel :: int
  start :: string
  step :: string
  max_bps :: string
  loss_threshold :: rat
  jitter_threshold :: rat
  drop_threshold :: rat
  timeout :: int
  meta :: "(string \<rightharpoonup> json) option"

text \<open>
  The JSON document of iperf3, as far as the program reads it: an optional \<open>end\<close> object with
  optional \<open>sum\<close> and \<open>sum_received\<close> objects, each a dictionary of numbers (an association
  list: the empty dictionary is falsy). A key that is absent and a key whose value is
  \<open>null\<close> both read as \<open>None\<close> through \<open>dict.get\<close>.
\<close>

type_synonym dict = "(string \<times> rat) list"

record iperf_end =
  sum_obj :: "dict option"  \<comment> \<open>the key \<open>sum\<close>\<close>
  sum_received :: "dict option"

record iperf_data =
  end_obj :: "iperf_end option"

text \<open>
  \<open>subprocess.run\<close> is the environment: the n-th call, with its command line and timeout,
  either raises \<open>TimeoutExpired\<close> or completes with a return code, the decoded stderr and
  the stdout as \<open>json.loads\<close> reads it (\<open>None\<close> when \<open>json.loads\<close> raises).
\<close>

datatype proc_result = TimeoutExpired | Completed int string "iperf_data option"

type_synonym world = "nat \<Rightarrow> string list \<Rightarrow> int \<Rightarrow> proc_result"

datatype iperf_result =
    Err string "string option" string  \<comment> \<open>the keys error, stderr (when present), cmd\<close>
  | Data iperf_data string              \<comment> \<open>the keys data, cmd\<close>

definition iperf_cmd :: "args \<Rightarrow> string \<Rightarrow> string list" where
  "iperf_cmd a bandwidth =
     [''iperf3'', ''-c'', server a, ''-p'', str_int (port a), ''-t'', str_int (duration a),
      ''-P'', str_int (parallel a), ''-J'', ''-u'', ''-b'', bandwidth]
     @ (if direction a = ''downlink'' then [''-R''] else [])"

definition run_iperf :: "args \<Rightarrow> world \<Rightarrow> nat \<Rightarrow> string \<Rightarrow> iperf_result" where
  "run_iperf a w n bandwidth =
     (let cmd = iperf_cmd a bandwidth in
      case w n cmd (timeout a) of
        TimeoutExpired \<Rightarrow> Err ''timeout'' None (join '' '' cmd)
      | Completed returncode err out \<Rightarrow>
          if returncode \<noteq> 0 then Err (''exit_'' @ str_int returncode) (Some err) (join '' '' cmd)
          else (case out of
                  None \<Rightarrow> Err ''json_parse'' None (join '' '' cmd)
                | Some data \<Rightarrow> Data data (join '' '' cmd)))"

record stats =
  throughput_bps :: "rat option"
  jitter_ms :: "rat option"
  loss_percent :: "rat option"
  packets :: "rat option"

definition extract_udp_stats :: "iperf_data \<Rightarrow> stats" where
  "extract_udp_stats data =
     (let e = (case end_obj data of Some e \<Rightarrow> e | None \<Rightarrow> \<lparr>sum_obj = None, sum_received = None\<rparr>);
          s1 = (case sum_obj e of Some d \<Rightarrow> d | None \<Rightarrow> []);
          s2 = (case sum_received e of Some d \<Rightarrow> d | None \<Rightarrow> []);
          sm = (if s1 \<noteq> [] then s1 else if s2 \<noteq> [] then s2 else [])
      in \<lparr>throughput_bps = map_of sm ''bits_per_second'',
          jitter_ms = map_of sm ''jitter_ms'',
          loss_percent = map_of sm ''lost_percent'',
          packets = map_of sm ''packets''\<rparr>)"

subsection \<open>Step records and the controller state\<close>

text \<open>
  A step dictionary. \<open>role\<close> stands for the marker keys: \<open>Confirm\<close> is the key
  \<open>confirm\<close>, \<open>Fallback\<close> the key \<open>fallback\<close>, \<open>Normal\<close> neither. \<open>measured\<close> is
  \<open>None\<close> until \<open>step.update(stats)\<close> has run.
\<close>

datatype role = Normal | Confirm | Fallback

record step_record =
  target_bps :: rat
  target_str :: string
  ok :: bool
  role :: role
  error :: "string option"
  cmd :: "string option"
  stderr :: "string option"
  measured :: "stats option"

text \<open>The local variables of \<open>main\<close>; \<open>calls\<close> counts the probes issued so far.\<close>

record session =
  steps :: "step_record list"
  last_ok :: "step_record option"
  stop_reason :: string
  prev_throughput :: "rat option"
  fallback_attempted :: bool
  current :: rat
  calls :: nat

datatype 'a flow = Continue 'a | Break 'a

definition new_step :: "rat \<Rightarrow> string \<Rightarrow> role \<Rightarrow> step_record" where
  "new_step t bw_str r =
     \<lparr>target_bps = t, target_str = bw_str, ok = False, role = r,
      error = None, cmd = None, stderr = None, measured = None\<rparr>"

subsection \<open>Threshold checks\<close>

definition exceeds :: "rat option \<Rightarrow> rat \<Rightarrow> bool" where
  \<comment> \<open>\<open>v is not None and v > threshold\<close>\<close>
  "exceeds v threshold = (case v of None \<Rightarrow> False | Some x \<Rightarrow> threshold < x)"

definition drop_bound :: "args \<Rightarrow> rat \<Rightarrow> rat" where
  \<comment> \<open>\<open>prev_throughput * (1 - args.drop_threshold / 100.0)\<close>, in floats\<close>
  "drop_bound a p = fmul p (fsub 1 (fdiv (drop_threshold a) 100))"

definition dropped :: "args \<Rightarrow> rat option \<Rightarrow> rat option \<Rightarrow> bool" where
  \<comment> \<open>both present and \<open>throughput < prev_throughput * (1 - drop_threshold / 100.0)\<close>\<close>
  "dropped a prev throughput =
     (case prev of
        None \<Rightarrow> False
      | Some p \<Rightarrow> (case throughput of
                    None \<Rightarrow> False
                  | Some t \<Rightarrow> t < drop_bound a p))"

definition ramp_check :: "args \<Rightarrow> rat option \<Rightarrow> stats \<Rightarrow> string \<Rightarrow> bool \<times> string" where
  \<comment> \<open>lines 141-151: three independent \<open>if\<close>s, each assigning \<open>ok\<close> and \<open>stop_reason\<close>\<close>
  "ramp_check a prev st reason =
     (let r0 = (True, reason);
          r1 = (if exceeds (loss_percent st) (loss_threshold a) then (False, ''loss_threshold'') else r0);
          r2 = (if exceeds (jitter_ms st) (jitter_threshold a) then (False, ''jitter_threshold'') else r1);
          r3 = (if dropped a prev (throughput_bps st) then (False, ''throughput_drop'') else r2)
      in r3)"

definition fallback_check :: "args \<Rightarrow> rat option \<Rightarrow> stats \<Rightarrow> bool" where
  \<comment> \<open>lines 186-193 and 221-228: the same three checks, assigning only the flag\<close>
  "fallback_check a prev st =
     (let k0 = True;
          k1 = (if exceeds (loss_percent st) (loss_threshold a) then False else k0);
          k2 = (if exceeds (jitter_ms st) (jitter_threshold a) then False else k1);
          k3 = (if dropped a prev (throughput_bps st) then False else k2)
      in k3)"

subsection \<open>The ramp loop\<close>

definition stepdown :: "args \<Rightarrow> rat \<Rightarrow> rat \<Rightarrow> world \<Rightarrow> step_record \<Rightarrow> session \<Rightarrow> session" where
  \<comment> \<open>lines 203-234, with \<open>last_ok = l\<close>\<close>
  "stepdown a start_bps step_bps w l s =
     (let down = max start_bps (fsub (target_bps l) step_bps) in
      if down < target_bps l then
        (let bw_str = bps_to_str down;
             retry = run_iperf a w (calls s) bw_str;
             s1 = s\<lparr>calls := calls s + 1\<rparr>;
             retry_step = new_step down bw_str Fallback
         in case retry of
              Err e se c \<Rightarrow> s1
            | Data d c \<Rightarrow>
                (let sts = extract_udp_stats d;
                     ok_retry = fallback_check a (prev_throughput s1) sts;
                     retry_step = retry_step\<lparr>measured := Some sts, cmd := Some c, ok := ok_retry\<rparr>;
                     s2 = s1\<lparr>steps := steps s1 @ [retry_step]\<rparr>
                 in if ok_retry
                    then s2\<lparr>last_ok := Some retry_step,
                            stop_reason := stop_reason s2 @ ''_fallback_stepdown''\<rparr>
                    else s2))
      else s)"

definition fallback :: "args \<Rightarrow> rat \<Rightarrow> rat \<Rightarrow> world \<Rightarrow> step_record \<Rightarrow> session \<Rightarrow> session" where
  \<comment> \<open>lines 166-234, with \<open>last_ok = l\<close>; every path ends in \<open>break\<close>\<close>
  "fallback a start_bps step_bps w l s0 =
     (let s = s0\<lparr>fallback_attempted := True\<rparr>;
          bw_str = bps_to_str (target_bps l);
          confirm = run_iperf a w (calls s) bw_str;
          s1 = s\<lparr>calls := calls s + 1\<rparr>;
          confirm_step = new_step (target_bps l) bw_str Confirm
      in case confirm of
           Err e se c \<Rightarrow> stepdown a start_bps step_bps w l s1
         | Data d c \<Rightarrow>
             (let sts = extract_udp_stats d;
                  ok_confirm = fallback_check a (prev_throughput s1) sts;
                  confirm_step = confirm_step\<lparr>measured := Some sts, cmd := Some c, ok := ok_confirm\<rparr>;
                  s2 = s1\<lparr>steps := steps s1 @ [confirm_step]\<rparr>
              in if ok_confirm
                 then s2\<lparr>last_ok := Some confirm_step,
                         stop_reason := stop_reason s2 @ ''_fallback_confirmed''\<rparr>
                 else stepdown a start_bps step_bps w l s2))"

definition loop_body :: "args \<Rightarrow> rat \<Rightarrow> rat \<Rightarrow> world \<Rightarrow> session \<Rightarrow> session flow" where
  \<comment> \<open>lines 117-236: one pass through the body of the \<open>while\<close>\<close>
  "loop_body a start_bps step_bps w s =
     (let bw_str = bps_to_str (current s);
          result = run_iperf a w (calls s) bw_str;
          s1 = s\<lparr>calls := calls s + 1\<rparr>;
          stp = new_step (current s) bw_str Normal
      in case result of
           Err e se c \<Rightarrow>
             Break (s1\<lparr>steps := steps s1 @ [stp\<lparr>error := Some e, cmd := Some c, stderr := se\<rparr>],
                       stop_reason := e\<rparr>)
         | Data d c \<Rightarrow>
             (let sts = extract_udp_stats d;
                  (k, reason) = ramp_check a (prev_throughput s1) sts (stop_reason s1);
                  stp = stp\<lparr>measured := Some sts, cmd := Some c, ok := k\<rparr>;
                  s2 = s1\<lparr>steps := steps s1 @ [stp], stop_reason := reason\<rparr>
              in if k then
                   Continue (s2\<lparr>last_ok := Some stp,
                                prev_throughput :=
                                  (case throughput_bps sts of Some t \<Rightarrow> Some t
                                   | None \<Rightarrow> prev_throughput s2),
                                current := fadd (current s2) step_bps\<rparr>)
                 else
                   (case last_ok s2 of
                      None \<Rightarrow> Break s2
                    | Some l \<Rightarrow>
                        if \<not> fallback_attempted s2
                        then Break (fallback a start_bps step_bps w l s2)
                        else Break s2)))"

text \<open>
  The \<open>while current <= max_bps + 1\<close> loop. It need not terminate (a step of zero, or a
  step that the float addition absorbs, with every probe accepted), so it runs on fuel:
  \<open>None\<close> is "not finished within n passes".
\<close>

fun ramp :: "nat \<Rightarrow> args \<Rightarrow> rat \<Rightarrow> rat \<Rightarrow> rat \<Rightarrow> world \<Rightarrow> session \<Rightarrow> session option" where
  "ramp 0 a start_bps step_bps mx w s = None"
| "ramp (Suc n) a start_bps step_bps mx w s =
     (if current s \<le> fadd mx 1 then
        (case loop_body a start_bps step_bps w s of
           Break s' \<Rightarrow> Some s'
         | Continue s' \<Rightarrow> ramp n a start_bps step_bps mx w s')
      else Some s)"

definition init :: "rat \<Rightarrow> session" where
  \<comment> \<open>lines 109-115\<close>
  "init start_bps =
     \<lparr>steps = [], last_ok = None, stop_reason = ''max_reached'', prev_throughput = None,
      fallback_attempted = False, current = start_bps, calls = 0\<rparr>"

subsection \<open>The output document\<close>

definition build_meta ::
  "args \<Rightarrow> string \<Rightarrow> rat \<Rightarrow> rat \<Rightarrow> rat \<Rightarrow> (string \<rightharpoonup> json) \<Rightarrow> (string \<rightharpoonup> json)" where
  \<comment> \<open>lines 239-252: \<open>{**meta, "tool": ..., ...}\<close>; \<open>now\<close> is the timestamp string\<close>
  "build_meta a now start_bps step_bps mx m =
     m(''tool'' \<mapsto> JStr ''iperf3'',
       ''protocol'' \<mapsto> JStr ''udp'',
       ''direction'' \<mapsto> JStr (direction a),
       ''timestamp'' \<mapsto> JStr now,
       ''adaptive'' \<mapsto> JBool True,
       ''loss_threshold'' \<mapsto> JNum (loss_threshold a),
       ''jitter_threshold'' \<mapsto> JNum (jitter_threshold a),
       ''drop_threshold'' \<mapsto> JNum (drop_threshold a),
       ''start_bps'' \<mapsto> JNum start_bps,
       ''step_bps'' \<mapsto> JNum step_bps,
       ''max_bps'' \<mapsto> JNum mx)"

record session_output =
  out_meta :: "string \<rightharpoonup> json"
  out_steps :: "step_record list"
  out_selected :: "step_record option"
  out_stop_reason :: string

datatype no_output =
    SystemExit string
  | NonFiniteBandwidth  \<comment> \<open>a bandwidth argument is \<open>inf\<close> or \<open>nan\<close>: the program runs on
                            with it, the model does not follow it there\<close>

definition main :: "nat \<Rightarrow> args \<Rightarrow> world \<Rightarrow> string \<Rightarrow> (no_output + session_output) option" where
  \<comment> \<open>\<open>None\<close>: the loop has not finished within the fuel\<close>
  "main fuel a w now =
     (case (parse_bps (start a), parse_bps (step a), parse_bps (max_bps a)) of
        (Some x, Some y, Some z) \<Rightarrow>
          (case (x, y, z) of
             (Finite start_bps, Finite step_bps, Finite mx) \<Rightarrow>
               (let m = (case meta a of Some d \<Rightarrow> d | None \<Rightarrow> Map.empty) in
                case ramp fuel a start_bps step_bps mx w (init start_bps) of
                  None \<Rightarrow> None
                | Some s \<Rightarrow>
                    Some (Inr \<lparr>out_meta = build_meta a now start_bps step_bps mx m,
                               out_steps = steps s,
                               out_selected = last_ok s,
                               out_stop_reason = stop_reason s\<rparr>))
           | _ \<Rightarrow> Some (Inl NonFiniteBandwidth))
      | _ \<Rightarrow> Some (Inl (SystemExit ''Invalid bandwidth values'')))"

subsection \<open>Specification-side predicates\<close>

definition within_bounds :: "args \<Rightarrow> rat option \<Rightarrow> stats \<Rightarrow> bool" where
  \<comment> \<open>the specification's reading of the checks: every present metric is within its
      inclusive bound, an absent one is skipped; the bound on the throughput is the float
      the program computes\<close>
  "within_bounds a prev st =
     ((case loss_percent st of None \<Rightarrow> True | Some l \<Rightarrow> l \<le> loss_threshold a) \<and>
      (case jitter_ms st of None \<Rightarrow> True | Some j \<Rightarrow> j \<le> jitter_threshold a) \<and>
      (case prev of None \<Rightarrow> True
       | Some p \<Rightarrow> (case throughput_bps st of None \<Rightarrow> True
                    | Some t \<Rightarrow> drop_bound a p \<le> t)))"

definition accepted :: "args \<Rightarrow> rat option \<Rightarrow> iperf_result \<Rightarrow> bool" where
  \<comment> \<open>a probe result that is measured and within bounds\<close>
  "accepted a prev res =
     (case res of Err e se c \<Rightarrow> False | Data d c \<Rightarrow> within_bounds a prev (extract_udp_stats d))"

definition last_reason :: "args \<Rightarrow> rat option \<Rightarrow> stats \<Rightarrow> string \<Rightarrow> string" where
  \<comment> \<open>the reason of the last check that triggers, in the order loss, jitter, drop\<close>
  "last_reason a prev st r =
     (if dropped a prev (throughput_bps st) then ''throughput_drop''
      else if exceeds (jitter_ms st) (jitter_threshold a) then ''jitter_threshold''
      else if exceeds (loss_percent st) (loss_threshold a) then ''loss_threshold''
      else r)"

definition bps_value :: "pyfloat option \<Rightarrow> rat option" where
  \<comment> \<open>the value of a parsed bandwidth argument, when it is a finite float\<close>
  "bps_value v = (case v of Some (Finite x) \<Rightarrow> Some x | _ \<Rightarrow> None)"

definition close_to :: "rat \<Rightarrow> rat \<Rightarrow> bool" where
  \<comment> \<open>y recovers x within three decimals, relative to x\<close>
  "close_to x y = (\<bar>y - x\<bar> * 1000 \<le> \<bar>x\<bar>)"

definition roundtrip :: "rat \<Rightarrow> bool" where
  "roundtrip x =
     (case parse_bps (bps_to_str x) of
        Some (Finite y) \<Rightarrow> close_to x y
      | _ \<Rightarrow> False)"

subsection \<open>Sample inputs\<close>

definition scenario_args :: args where
  "scenario_args =
     \<lparr>server = ''192.0.2.1'', port = 5201, direction = ''uplink'', duration = 15, parallel = 4,
      start = ''2G'', step = ''2G'', max_bps = ''10G'',
      loss_threshold = 1, jitter_threshold = 5, drop_threshold = 5, timeout = 45,
      meta = Some [''tool'' \<mapsto> JStr ''speedtest'', ''site'' \<mapsto> JStr ''lab'']\<rparr>"

definition tenth :: rat where
  \<comment> \<open>the float that \<open>json.loads\<close> reads from \<open>0.1\<close>\<close>
  "tenth = fl (1 / 10)"

definition report :: "rat option \<Rightarrow> rat \<Rightarrow> rat \<Rightarrow> iperf_data" where
  "report bits loss jitter =
     \<lparr>end_obj = Some \<lparr>sum_obj = Some ((case bits of None \<Rightarrow> [] | Some b \<Rightarrow> [(''bits_per_second'', b)])
                                       @ [(''lost_percent'', loss), (''jitter_ms'', jitter)]),
                       sum_received = None\<rparr>\<rparr>"

definition all_pass :: world where
  \<comment> \<open>every probe measures loss 0.1 percent and jitter 1 ms\<close>
  "all_pass n c t = Completed 0 [] (Some (report None tenth 1))"


definition lossy_and_jittery :: world where
  "lossy_and_jittery n c t = Completed 0 [] (Some (report None 2 9))"

definition fixed_keys :: "string list" where
  "fixed_keys = [''tool'', ''protocol'', ''direction'', ''timestamp'', ''adaptive'',
     ''loss_threshold'', ''jitter_threshold'', ''drop_threshold'', ''start_bps'', ''step_bps'',
     ''max_bps'']"

definition violation_after_first :: world where
  \<comment> \<open>the first probe passes; every later one measures loss 2 percent and jitter 9 ms\<close>
  "violation_after_first n c t =
     (if n = 0 then Completed 0 [] (Some (report None tenth 1))
      else Completed 0 [] (Some (report None 2 9)))"

definition times_out :: world where
  "times_out n c t = TimeoutExpired"

fun heads :: "nat \<Rightarrow> args \<Rightarrow> rat \<Rightarrow> rat \<Rightarrow> rat \<Rightarrow> world \<Rightarrow> session \<Rightarrow> session option" where
  \<comment> \<open>the state at the head of the loop after k passes that all ended in \<open>Continue\<close>\<close>
  "heads 0 a start_bps step_bps mx w s = Some s"
| "heads (Suc k) a start_bps step_bps mx w s =
     (if current s \<le> fadd mx 1 then
        (case loop_body a start_bps step_bps w s of
           Break s' \<Rightarrow> None
         | Continue s' \<Rightarrow> heads k a start_bps step_bps mx w s')
      else None)"

definition ramping :: "session \<Rightarrow> bool" where
  \<comment> \<open>what holds at every head of the loop in a session started by \<open>init\<close>\<close>
  "ramping s =
     (\<not> fallback_attempted s \<and> stop_reason s = ''max_reached'' \<and>
      calls s = length (steps s) \<and>
      list_all (\<lambda>x. ok x \<and> role x = Normal \<and> error x = None) (steps s) \<and>
      last_ok s = (if steps s = [] then None else Some (last (steps s))))"

definition selection_ok :: "session \<Rightarrow> bool" where
  "selection_ok s = (case last_ok s of None \<Rightarrow> True | Some x \<Rightarrow> x \<in> set (steps s) \<and> ok x)"

definition threshold_reasons :: "string list" where
  "threshold_reasons = [''loss_threshold'', ''jitter_threshold'', ''throughput_drop'']"

definition spec_stop_reasons :: "string list" where
  \<comment> \<open>the stop reasons the specification lists (section 6)\<close>
  "spec_stop_reasons =
     [''max_reached'', ''timeout'', ''process_error'', ''parse_error'']
     @ concat (map (\<lambda>t. [t, t @ ''_fallback_confirmed'', t @ ''_fallback_stepdown''])
                threshold_reasons)"

definition stop_reason_in_spec :: "session \<Rightarrow> bool" where
  "stop_reason_in_spec s = (stop_reason s \<in> set spec_stop_reasons)"

definition code_stop_reason :: "string \<Rightarrow> bool" where
  \<comment> \<open>the stop reasons of the program: the error strings are those of \<open>run_iperf\<close>\<close>
  "code_stop_reason x =
     (x = ''max_reached'' \<or> x = ''timeout'' \<or> x = ''json_parse'' \<or>
      (\<exists>returncode. returncode \<noteq> 0 \<and> x = ''exit_'' @ str_int returncode) \<or>
      x \<in> set (concat (map (\<lambda>t. [t, t @ ''_fallback_confirmed'', t @ ''_fallback_stepdown''])
                threshold_reasons)))"

definition exits_nonzero :: world where
  "exits_nonzero n c t = Completed 1 ''iperf3: error - unable to connect to server'' None"

definition ramp_count :: "rat \<Rightarrow> rat \<Rightarrow> rat \<Rightarrow> nat" where
  \<comment> \<open>how many of start, start + step, start + 2 step, ... are at most max + 1\<close>
  "ramp_count start_bps step_bps mx =
     (if start_bps \<le> mx + 1 then nat \<lfloor>(mx + 1 - start_bps) / step_bps\<rfloor> + 1 else 0)"


definition fails_from_third :: world where
  \<comment> \<open>two probes pass, every later one times out\<close>
  "fails_from_third n c t =
     (if n < 2 then Completed 0 [] (Some (report None tenth 1)) else TimeoutExpired)"

definition fallback_probes_fail :: world where
  \<comment> \<open>two probes pass, the third measures loss 2 percent, every later one times out\<close>
  "fallback_probes_fail n c t =
     (if n < 2 then Completed 0 [] (Some (report None tenth 1))
      else if n = 2 then Completed 0 [] (Some (report None 2 1))
      else TimeoutExpired)"

definition confirm_times_out :: world where
  \<comment> \<open>as \<open>fallback_probes_fail\<close>, but only the fourth probe times out\<close>
  "confirm_times_out n c t =
     (if n = 2 then Completed 0 [] (Some (report None 2 1))
      else if n = 3 then TimeoutExpired
      else Completed 0 [] (Some (report None tenth 1)))"

definition roles_recorded :: "session \<Rightarrow> role list" where
  "roles_recorded s = map role (steps s)"

definition confirms :: "step_record list \<Rightarrow> nat" where
  "confirms xs = length (filter (\<lambda>x. role x = Confirm) xs)"

definition fallbacks :: "step_record list \<Rightarrow> nat" where
  "fallbacks xs = length (filter (\<lambda>x. role x = Fallback) xs)"

definition confirm_saves :: world where
  \<comment> \<open>scenario B: 2G and 4G pass, 6G measures loss 2 percent, the confirm at 4G passes\<close>
  "confirm_saves n c t =
     (if n = 2 then Completed 0 [] (Some (report None 2 1))
      else Completed 0 [] (Some (report None tenth 1)))"

definition targets_recorded :: "session \<Rightarrow> rat list" where
  "targets_recorded s = map target_bps (steps s)"

section \<open>Properties\<close>

subsection \<open>Floats of the sample inputs\<close>

lemma sample_floats:
  "fadd 10000000000 1 = 10000000001"
  "fsub 4000000000 2000000000 = 2000000000"
  "fadd 2000000000 0 = 2000000000"
  "fl 1 = 1"
  "fl 2000000000 = 2000000000"
  "fl 10000000000 = 10000000000"
  "fl 10000000001 = 10000000001"
  by code_simp+

lemma tenth_value: "tenth = 3602879701896397 / 36028797018963968"
  by code_simp

subsection \<open>Codec\<close>

text \<open>
  C9. For the representative values 2\,000\,000\,000, 1\,500\,000, 1\,500 and 250 bits per
  second, \<open>parse_bps (bps_to_str x)\<close> is not \<open>None\<close> and recovers x within three-decimal
  relative precision (here: exactly).
\<close>

theorem codec_roundtrip:
  "parse_bps (bps_to_str 2000000000) = Some (Finite 2000000000) \<and> roundtrip 2000000000 \<and>
   parse_bps (bps_to_str 1500000) = Some (Finite 1500000) \<and> roundtrip 1500000 \<and>
   parse_bps (bps_to_str 1500) = Some (Finite 1500) \<and> roundtrip 1500 \<and>
   parse_bps (bps_to_str 250) = Some (Finite 250) \<and> roundtrip 250"
  by code_simp

subsection \<open>Threshold checks\<close>

lemma ramp_check_fst: "fst (ramp_check a prev st r) = within_bounds a prev st"
  by (auto simp: ramp_check_def within_bounds_def exceeds_def dropped_def Let_def split: option.splits)

lemma ramp_check_snd: "snd (ramp_check a prev st r) = last_reason a prev st r"
  by (simp add: ramp_check_def last_reason_def Let_def)

lemma fallback_check_eq: "fallback_check a prev st = within_bounds a prev st"
  by (auto simp: fallback_check_def within_bounds_def exceeds_def dropped_def Let_def split: option.splits)

lemma loop_body_accept:
  assumes "run_iperf a w (calls s) (bps_to_str (current s)) = Data d c"
    and "within_bounds a (prev_throughput s) (extract_udp_stats d)"
  shows "loop_body a start_bps step_bps w s =
     Continue (s\<lparr>calls := calls s + 1,
                 steps := steps s @ [(new_step (current s) (bps_to_str (current s)) Normal)
                   \<lparr>measured := Some (extract_udp_stats d), cmd := Some c, ok := True\<rparr>],
                 stop_reason := stop_reason s,
                 last_ok := Some ((new_step (current s) (bps_to_str (current s)) Normal)
                   \<lparr>measured := Some (extract_udp_stats d), cmd := Some c, ok := True\<rparr>),
                 prev_throughput := (case throughput_bps (extract_udp_stats d) of Some t \<Rightarrow> Some t
                                     | None \<Rightarrow> prev_throughput s),
                 current := fadd (current s) step_bps\<rparr>)"
proof -
  have k: "fst (ramp_check a (prev_throughput s) (extract_udp_stats d) (stop_reason s))"
    using assms(2) by (simp add: ramp_check_fst)
  have r: "snd (ramp_check a (prev_throughput s) (extract_udp_stats d) (stop_reason s)) = stop_reason s"
    using k by (auto simp: ramp_check_def Let_def split: if_splits)
  have "ramp_check a (prev_throughput s) (extract_udp_stats d) (stop_reason s) = (True, stop_reason s)"
    using k r by (simp add: prod_eq_iff)
  then show ?thesis
    using assms(1) by (simp add: loop_body_def Let_def split: option.split)
qed




subsection \<open>One pass of the loop\<close>

lemma loop_body_error:
  assumes "run_iperf a w (calls s) (bps_to_str (current s)) = Err e se c"
  shows "loop_body a start_bps step_bps w s =
     Break (s\<lparr>calls := calls s + 1,
              steps := steps s @ [(new_step (current s) (bps_to_str (current s)) Normal)
                 \<lparr>error := Some e, cmd := Some c, stderr := se\<rparr>],
              stop_reason := e\<rparr>)"
  using assms by (simp add: loop_body_def Let_def)

lemma loop_body_reject:
  assumes "run_iperf a w (calls s) (bps_to_str (current s)) = Data d c"
    and "\<not> within_bounds a (prev_throughput s) (extract_udp_stats d)"
    and "s2 = s\<lparr>calls := calls s + 1,
              steps := steps s @ [(new_step (current s) (bps_to_str (current s)) Normal)
                 \<lparr>measured := Some (extract_udp_stats d), cmd := Some c, ok := False\<rparr>],
              stop_reason := last_reason a (prev_throughput s) (extract_udp_stats d) (stop_reason s)\<rparr>"
  shows "loop_body a start_bps step_bps w s =
     (case last_ok s of
        None \<Rightarrow> Break s2
      | Some l \<Rightarrow> if \<not> fallback_attempted s then Break (fallback a start_bps step_bps w l s2)
                  else Break s2)"
proof -
  have "ramp_check a (prev_throughput s) (extract_udp_stats d) (stop_reason s) =
      (False, last_reason a (prev_throughput s) (extract_udp_stats d) (stop_reason s))"
    using assms(2) ramp_check_fst [of a "prev_throughput s" "extract_udp_stats d" "stop_reason s"]
      ramp_check_snd [of a "prev_throughput s" "extract_udp_stats d" "stop_reason s"]
    by (simp add: prod_eq_iff)
  then show ?thesis
    using assms(1,3) by (simp add: loop_body_def Let_def split: option.split)
qed

lemma stepdown_reason:
  "stop_reason (stepdown a start_bps step_bps w l s) = stop_reason s \<or>
   stop_reason (stepdown a start_bps step_bps w l s) = stop_reason s @ ''_fallback_stepdown''"
  by (simp add: stepdown_def Let_def split: iperf_result.split)

lemma fallback_reason:
  "stop_reason (fallback a start_bps step_bps w l s) = stop_reason s \<or>
   stop_reason (fallback a start_bps step_bps w l s) = stop_reason s @ ''_fallback_stepdown'' \<or>
   stop_reason (fallback a start_bps step_bps w l s) = stop_reason s @ ''_fallback_confirmed''"
proof -
  let ?s1 = "s\<lparr>fallback_attempted := True, calls := calls s + 1\<rparr>"
  show ?thesis
  proof (cases "run_iperf a w (calls s) (bps_to_str (target_bps l))")
    case (Err e se c)
    then have "fallback a start_bps step_bps w l s = stepdown a start_bps step_bps w l ?s1"
      by (simp add: fallback_def Let_def)
    then show ?thesis
      using stepdown_reason [of a start_bps step_bps w l ?s1] by auto
  next
    case (Data d c)
    let ?cs = "(new_step (target_bps l) (bps_to_str (target_bps l)) Confirm)
        \<lparr>measured := Some (extract_udp_stats d), cmd := Some c,
          ok := fallback_check a (prev_throughput s) (extract_udp_stats d)\<rparr>"
    let ?s2 = "?s1\<lparr>steps := steps s @ [?cs]\<rparr>"
    show ?thesis
    proof (cases "fallback_check a (prev_throughput s) (extract_udp_stats d)")
      case True
      then show ?thesis using Data by (simp add: fallback_def Let_def)
    next
      case False
      then have "fallback a start_bps step_bps w l s = stepdown a start_bps step_bps w l ?s2"
        using Data by (simp add: fallback_def Let_def)
      then show ?thesis
        using stepdown_reason [of a start_bps step_bps w l ?s2] by auto
    qed
  qed
qed

subsection \<open>Which reason a violation reports\<close>

text \<open>
  C5 (as amended). When the measured outcome of a ramp step violates more than one
  threshold, the recorded stop reason is that of the last check that triggers in the order
  loss, jitter, throughput drop: each check overwrites the reason of the one before. A step
  whose loss and jitter both exceed their thresholds (and whose throughput has not dropped)
  yields \<open>jitter_threshold\<close>. The session's stop reason starts with that reason.
\<close>

theorem stop_reason_last_check:
  "snd (ramp_check a prev st r) = last_reason a prev st r \<and>
   (exceeds (loss_percent st) (loss_threshold a) \<and> exceeds (jitter_ms st) (jitter_threshold a) \<and>
    \<not> dropped a prev (throughput_bps st) \<longrightarrow> snd (ramp_check a prev st r) = ''jitter_threshold'') \<and>
   (run_iperf a w (calls s) (bps_to_str (current s)) = Data d c \<and>
    \<not> within_bounds a (prev_throughput s) (extract_udp_stats d) \<longrightarrow>
      (\<exists>s'. loop_body a start_bps step_bps w s = Break s' \<and>
            prefix (last_reason a (prev_throughput s) (extract_udp_stats d) (stop_reason s))
              (stop_reason s')))"
proof (intro conjI impI)
  show "snd (ramp_check a prev st r) = last_reason a prev st r"
    by (rule ramp_check_snd)
next
  assume "exceeds (loss_percent st) (loss_threshold a) \<and>
    exceeds (jitter_ms st) (jitter_threshold a) \<and> \<not> dropped a prev (throughput_bps st)"
  then show "snd (ramp_check a prev st r) = ''jitter_threshold''"
    by (simp add: ramp_check_snd last_reason_def)
next
  assume h: "run_iperf a w (calls s) (bps_to_str (current s)) = Data d c \<and>
    \<not> within_bounds a (prev_throughput s) (extract_udp_stats d)"
  let ?r = "last_reason a (prev_throughput s) (extract_udp_stats d) (stop_reason s)"
  let ?s2 = "s\<lparr>calls := calls s + 1,
              steps := steps s @ [(new_step (current s) (bps_to_str (current s)) Normal)
                 \<lparr>measured := Some (extract_udp_stats d), cmd := Some c, ok := False\<rparr>],
              stop_reason := ?r\<rparr>"
  have b: "loop_body a start_bps step_bps w s =
     (case last_ok s of
        None \<Rightarrow> Break ?s2
      | Some l \<Rightarrow> if \<not> fallback_attempted s then Break (fallback a start_bps step_bps w l ?s2)
                  else Break ?s2)"
    using h by (intro loop_body_reject) simp_all
  have f: "prefix ?r (stop_reason (fallback a start_bps step_bps w l ?s2))" for l
    using fallback_reason [of a start_bps step_bps w l ?s2] by auto
  show "\<exists>s'. loop_body a start_bps step_bps w s = Break s' \<and> prefix ?r (stop_reason s')"
    using b f by (auto split: option.split)
qed

theorem stop_reason_last_check_witness:
  "exceeds (loss_percent (extract_udp_stats (report None 2 9))) (loss_threshold scenario_args) \<and>
   exceeds (jitter_ms (extract_udp_stats (report None 2 9))) (jitter_threshold scenario_args) \<and>
   snd (ramp_check scenario_args None (extract_udp_stats (report None 2 9)) ''max_reached'') =
     ''jitter_threshold'' \<and>
   (\<exists>s'. loop_body scenario_args 2000000000 2000000000 violation_after_first
           ((init 2000000000)\<lparr>calls := 1\<rparr>) = Break s' \<and>
         prefix ''jitter_threshold'' (stop_reason s'))"
proof -
  let ?st = "extract_udp_stats (report None 2 9)"
  have h1: "exceeds (loss_percent ?st) (loss_threshold scenario_args)" by code_simp
  have h2: "exceeds (jitter_ms ?st) (jitter_threshold scenario_args)" by code_simp
  have h3: "\<not> dropped scenario_args None (throughput_bps ?st)" by code_simp
  have h4: "run_iperf scenario_args violation_after_first 1 (bps_to_str 2000000000) =
     Data (report None 2 9) ''iperf3 -c 192.0.2.1 -p 5201 -t 15 -P 4 -J -u -b 2.000G''"
    by code_simp
  have h5: "\<not> within_bounds scenario_args None ?st" by code_simp
  have h6: "last_reason scenario_args None ?st ''max_reached'' = ''jitter_threshold''" by code_simp
  show ?thesis
    using stop_reason_last_check [of scenario_args None ?st "''max_reached''" violation_after_first
        "(init 2000000000)\<lparr>calls := 1\<rparr>" "report None 2 9"
        "''iperf3 -c 192.0.2.1 -p 5201 -t 15 -P 4 -J -u -b 2.000G''" 2000000000 2000000000]
      h1 h2 h3 h4 h5 h6
    by (simp add: init_def)
qed

text \<open>
  The claim as stated (the first check that triggers wins) fails: after one accepted step, a
  step with loss 2 percent and jitter 9 ms ends the session with \<open>jitter_threshold\<close>.
\<close>

theorem first_check_counterexample:
  "exceeds (loss_percent (extract_udp_stats (report None 2 9))) (loss_threshold scenario_args) \<and>
   exceeds (jitter_ms (extract_udp_stats (report None 2 9))) (jitter_threshold scenario_args) \<and>
   map_option stop_reason
     (ramp 3 scenario_args 2000000000 2000000000 10000000000 violation_after_first (init 2000000000))
   = Some ''jitter_threshold''"
  by code_simp

subsection \<open>The output metadata\<close>

lemma main_output:
  assumes "parse_bps (start a) = Some (Finite start_bps)"
    and "parse_bps (step a) = Some (Finite step_bps)"
    and "parse_bps (max_bps a) = Some (Finite mx)"
    and "ramp fuel a start_bps step_bps mx w (init start_bps) = Some s"
  shows "main fuel a w now =
     Some (Inr \<lparr>out_meta = build_meta a now start_bps step_bps mx
                   (case meta a of Some d \<Rightarrow> d | None \<Rightarrow> Map.empty),
                out_steps = steps s, out_selected = last_ok s,
                out_stop_reason = stop_reason s\<rparr>)"
  using assms by (simp add: main_def)

lemma main_Inr:
  assumes "main fuel a w now = Some (Inr out)"
  shows "\<exists>start_bps step_bps mx s.
     parse_bps (start a) = Some (Finite start_bps) \<and>
     parse_bps (step a) = Some (Finite step_bps) \<and>
     parse_bps (max_bps a) = Some (Finite mx) \<and>
     ramp fuel a start_bps step_bps mx w (init start_bps) = Some s \<and>
     out = \<lparr>out_meta = build_meta a now start_bps step_bps mx
                   (case meta a of Some d \<Rightarrow> d | None \<Rightarrow> Map.empty),
            out_steps = steps s, out_selected = last_ok s,
            out_stop_reason = stop_reason s\<rparr>"
  using assms by (auto simp: main_def Let_def split: option.splits pyfloat.splits)

lemma build_meta_other:
  "k \<notin> set fixed_keys \<Longrightarrow> build_meta a now start_bps step_bps mx m k = m k"
  by (simp add: build_meta_def fixed_keys_def)

text \<open>
  C10. In the \<open>meta\<close> object of the output, each of the controller's fixed fields (tool,
  protocol, direction, timestamp, adaptive, the three thresholds, start\_bps, step\_bps,
  max\_bps) holds the controller's value, whatever the caller supplied under that key, and
  every other caller-supplied key is carried through unchanged.
\<close>

theorem meta_fixed_fields_override:
  assumes "main fuel a w now = Some (Inr out)"
  shows "out_meta out ''tool'' = Some (JStr ''iperf3'') \<and>
     out_meta out ''protocol'' = Some (JStr ''udp'') \<and>
     out_meta out ''direction'' = Some (JStr (direction a)) \<and>
     out_meta out ''timestamp'' = Some (JStr now) \<and>
     out_meta out ''adaptive'' = Some (JBool True) \<and>
     out_meta out ''loss_threshold'' = Some (JNum (loss_threshold a)) \<and>
     out_meta out ''jitter_threshold'' = Some (JNum (jitter_threshold a)) \<and>
     out_meta out ''drop_threshold'' = Some (JNum (drop_threshold a)) \<and>
     out_meta out ''start_bps'' = map_option JNum (bps_value (parse_bps (start a))) \<and>
     out_meta out ''step_bps'' = map_option JNum (bps_value (parse_bps (step a))) \<and>
     out_meta out ''max_bps'' = map_option JNum (bps_value (parse_bps (max_bps a))) \<and>
     (k \<notin> set fixed_keys \<longrightarrow>
        out_meta out k = (case meta a of Some d \<Rightarrow> d k | None \<Rightarrow> None))"
proof -
  obtain start_bps step_bps mx s where p: "parse_bps (start a) = Some (Finite start_bps)"
      "parse_bps (step a) = Some (Finite step_bps)" "parse_bps (max_bps a) = Some (Finite mx)"
    and r: "ramp fuel a start_bps step_bps mx w (init start_bps) = Some s"
    and o: "out = \<lparr>out_meta = build_meta a now start_bps step_bps mx
                   (case meta a of Some d \<Rightarrow> d | None \<Rightarrow> Map.empty),
            out_steps = steps s, out_selected = last_ok s,
            out_stop_reason = stop_reason s\<rparr>"
    using main_Inr [OF assms] by (elim exE conjE)
  have "k \<notin> set fixed_keys \<longrightarrow>
        out_meta out k = (case meta a of Some d \<Rightarrow> d k | None \<Rightarrow> None)"
    using o by (auto simp: build_meta_other split: option.split)
  moreover have "out_meta out ''tool'' = Some (JStr ''iperf3'')"
    "out_meta out ''protocol'' = Some (JStr ''udp'')"
    "out_meta out ''direction'' = Some (JStr (direction a))"
    "out_meta out ''timestamp'' = Some (JStr now)"
    "out_meta out ''adaptive'' = Some (JBool True)"
    "out_meta out ''loss_threshold'' = Some (JNum (loss_threshold a))"
    "out_meta out ''jitter_threshold'' = Some (JNum (jitter_threshold a))"
    "out_meta out ''drop_threshold'' = Some (JNum (drop_threshold a))"
    "out_meta out ''start_bps'' = map_option JNum (bps_value (parse_bps (start a)))"
    "out_meta out ''step_bps'' = map_option JNum (bps_value (parse_bps (step a)))"
    "out_meta out ''max_bps'' = map_option JNum (bps_value (parse_bps (max_bps a)))"
    using o p by (simp_all add: build_meta_def bps_value_def)
  ultimately show ?thesis by blast
qed

lemma scenario_parse:
  "parse_bps (start scenario_args) = Some (Finite 2000000000)"
  "parse_bps (step scenario_args) = Some (Finite 2000000000)"
  "parse_bps (max_bps scenario_args) = Some (Finite 10000000000)"
  by code_simp+

theorem meta_fixed_fields_override_witness:
  "\<exists>out. main 1 scenario_args times_out ''2026-01-01T00:00:00+00:00'' = Some (Inr out) \<and>
     meta scenario_args = Some [''tool'' \<mapsto> JStr ''speedtest'', ''site'' \<mapsto> JStr ''lab''] \<and>
     out_meta out ''tool'' = Some (JStr ''iperf3'') \<and>
     ''site'' \<notin> set fixed_keys \<and>
     out_meta out ''site'' = Some (JStr ''lab'')"
proof -
  have "\<exists>s. ramp 1 scenario_args 2000000000 2000000000 10000000000 times_out (init 2000000000) = Some s"
    by (simp add: loop_body_def Let_def run_iperf_def times_out_def init_def)
  then obtain s where
    "ramp 1 scenario_args 2000000000 2000000000 10000000000 times_out (init 2000000000) = Some s" ..
  from main_output [OF scenario_parse this, of "''2026-01-01T00:00:00+00:00''"]
  obtain out where m: "main 1 scenario_args times_out ''2026-01-01T00:00:00+00:00'' = Some (Inr out)"
    by blast
  have k: "''site'' \<notin> set fixed_keys" by (simp add: fixed_keys_def)
  have d: "meta scenario_args = Some [''tool'' \<mapsto> JStr ''speedtest'', ''site'' \<mapsto> JStr ''lab'']"
    by (simp add: scenario_args_def)
  show ?thesis
    using meta_fixed_fields_override [OF m, of "''site''"] m k d by simp
qed

subsection \<open>Loop heads\<close>

lemma loop_body_Continue:
  assumes "loop_body a start_bps step_bps w s = Continue s'"
  shows "\<exists>d c. run_iperf a w (calls s) (bps_to_str (current s)) = Data d c \<and>
     within_bounds a (prev_throughput s) (extract_udp_stats d) \<and>
     s' = s\<lparr>calls := calls s + 1,
                 steps := steps s @ [(new_step (current s) (bps_to_str (current s)) Normal)
                   \<lparr>measured := Some (extract_udp_stats d), cmd := Some c, ok := True\<rparr>],
                 stop_reason := stop_reason s,
                 last_ok := Some ((new_step (current s) (bps_to_str (current s)) Normal)
                   \<lparr>measured := Some (extract_udp_stats d), cmd := Some c, ok := True\<rparr>),
                 prev_throughput := (case throughput_bps (extract_udp_stats d) of Some t \<Rightarrow> Some t
                                     | None \<Rightarrow> prev_throughput s),
                 current := fadd (current s) step_bps\<rparr>"
proof (cases "run_iperf a w (calls s) (bps_to_str (current s))")
  case (Err e se c)
  then show ?thesis using assms loop_body_error [OF Err, of start_bps step_bps] by simp
next
  case (Data d c)
  show ?thesis
  proof (cases "within_bounds a (prev_throughput s) (extract_udp_stats d)")
    case True
    then show ?thesis
      using assms Data loop_body_accept [OF Data True, of start_bps step_bps] by simp
  next
    case False
    then show ?thesis
      using assms loop_body_reject [OF Data False refl, of start_bps step_bps]
      by (simp split: option.splits if_splits)
  qed
qed

lemma ramping_init: "ramping (init start_bps)"
  by (simp add: ramping_def init_def)

lemma ramping_Continue:
  assumes "ramping s" and "loop_body a sb step_bps w s = Continue s'"
  shows "ramping s' \<and> length (steps s') = Suc (length (steps s))"
proof -
  obtain d c where s': "s' = s\<lparr>calls := calls s + 1,
                 steps := steps s @ [(new_step (current s) (bps_to_str (current s)) Normal)
                   \<lparr>measured := Some (extract_udp_stats d), cmd := Some c, ok := True\<rparr>],
                 stop_reason := stop_reason s,
                 last_ok := Some ((new_step (current s) (bps_to_str (current s)) Normal)
                   \<lparr>measured := Some (extract_udp_stats d), cmd := Some c, ok := True\<rparr>),
                 prev_throughput := (case throughput_bps (extract_udp_stats d) of Some t \<Rightarrow> Some t
                                     | None \<Rightarrow> prev_throughput s),
                 current := fadd (current s) step_bps\<rparr>"
    using loop_body_Continue [OF assms(2)] by blast
  show ?thesis
    using assms(1) unfolding s' ramping_def
    by (simp add: new_step_def algebra_simps)
qed

lemma heads_ramping:
  "heads k a sb step_bps mx w s = Some s' \<Longrightarrow> ramping s \<Longrightarrow>
   ramping s' \<and> length (steps s') = length (steps s) + k"
proof (induction k arbitrary: s)
  case 0
  then show ?case by simp
next
  case (Suc k)
  from Suc.prems(1) obtain s1 where b: "loop_body a sb step_bps w s = Continue s1"
    and h: "heads k a sb step_bps mx w s1 = Some s'"
    by (auto split: if_splits flow.splits)
  from ramping_Continue [OF Suc.prems(2) b] Suc.IH [OF h] show ?case by simp
qed

lemma ramp_heads:
  "ramp n a sb step_bps mx w s = Some r \<Longrightarrow>
   \<exists>k s'. k < n \<and> heads k a sb step_bps mx w s = Some s' \<and>
     ((\<not> current s' \<le> fadd mx 1 \<and> r = s') \<or>
      (current s' \<le> fadd mx 1 \<and> loop_body a sb step_bps w s' = Break r))"
proof (induction n arbitrary: s)
  case 0
  then show ?case by simp
next
  case (Suc n)
  show ?case
  proof (cases "current s \<le> fadd mx 1")
    case False
    then have "r = s" using Suc.prems by simp
    then show ?thesis using False by (intro exI [of _ 0] exI [of _ s]) simp
  next
    case True
    show ?thesis
    proof (cases "loop_body a sb step_bps w s")
      case (Break s1)
      then have "r = s1" using Suc.prems True by simp
      then show ?thesis using True Break by (intro exI [of _ 0] exI [of _ s]) simp
    next
      case (Continue s1)
      then have "ramp n a sb step_bps mx w s1 = Some r" using Suc.prems True by simp
      from Suc.IH [OF this] obtain k s' where k: "k < n"
        "heads k a sb step_bps mx w s1 = Some s'"
        "(\<not> current s' \<le> fadd mx 1 \<and> r = s') \<or>
         (current s' \<le> fadd mx 1 \<and> loop_body a sb step_bps w s' = Break r)"
        by blast
      then show ?thesis using True Continue
        by (intro exI [of _ "Suc k"] exI [of _ s']) simp
    qed
  qed
qed

lemma heads_ramp:
  "heads k a sb step_bps mx w s = Some s' \<Longrightarrow>
   ramp (k + n) a sb step_bps mx w s = ramp n a sb step_bps mx w s'"
proof (induction k arbitrary: s)
  case 0
  then show ?case by simp
next
  case (Suc k)
  then show ?case by (auto split: if_splits flow.splits)
qed

subsection \<open>The selection\<close>

lemma stepdown_selection: "selection_ok s \<Longrightarrow> selection_ok (stepdown a sb step_bps w l s)"
  by (auto simp: stepdown_def Let_def selection_ok_def split: iperf_result.split option.splits)

lemma fallback_selection: "selection_ok s \<Longrightarrow> selection_ok (fallback a sb step_bps w l s)"
proof -
  assume s: "selection_ok s"
  let ?s1 = "s\<lparr>fallback_attempted := True, calls := calls s + 1\<rparr>"
  have s1: "selection_ok ?s1" using s by (simp add: selection_ok_def split: option.splits)
  show ?thesis
  proof (cases "run_iperf a w (calls s) (bps_to_str (target_bps l))")
    case (Err e se c)
    then have "fallback a sb step_bps w l s = stepdown a sb step_bps w l ?s1"
      by (simp add: fallback_def Let_def)
    then show ?thesis using stepdown_selection [OF s1] by simp
  next
    case (Data d c)
    let ?cs = "(new_step (target_bps l) (bps_to_str (target_bps l)) Confirm)
        \<lparr>measured := Some (extract_udp_stats d), cmd := Some c,
          ok := fallback_check a (prev_throughput s) (extract_udp_stats d)\<rparr>"
    let ?s2 = "?s1\<lparr>steps := steps s @ [?cs]\<rparr>"
    have s2: "selection_ok ?s2" using s by (auto simp: selection_ok_def split: option.splits)
    show ?thesis
    proof (cases "fallback_check a (prev_throughput s) (extract_udp_stats d)")
      case True
      then show ?thesis using Data by (simp add: fallback_def Let_def selection_ok_def)
    next
      case False
      then have "fallback a sb step_bps w l s = stepdown a sb step_bps w l ?s2"
        using Data by (simp add: fallback_def Let_def)
      then show ?thesis using stepdown_selection [OF s2] by simp
    qed
  qed
qed

lemma loop_body_selection:
  assumes "selection_ok s"
  shows "case loop_body a sb step_bps w s of Continue s' \<Rightarrow> selection_ok s'
         | Break s' \<Rightarrow> selection_ok s'"
proof (cases "run_iperf a w (calls s) (bps_to_str (current s))")
  case (Err e se c)
  show ?thesis
    using assms unfolding loop_body_error [OF Err]
    by (auto simp: selection_ok_def split: option.splits)
next
  case (Data d c)
  show ?thesis
  proof (cases "within_bounds a (prev_throughput s) (extract_udp_stats d)")
    case True
    show ?thesis unfolding loop_body_accept [OF Data True]
      by (simp add: selection_ok_def)
  next
    case False
    let ?s2 = "s\<lparr>calls := calls s + 1,
              steps := steps s @ [(new_step (current s) (bps_to_str (current s)) Normal)
                 \<lparr>measured := Some (extract_udp_stats d), cmd := Some c, ok := False\<rparr>],
              stop_reason := last_reason a (prev_throughput s) (extract_udp_stats d) (stop_reason s)\<rparr>"
    have s2: "selection_ok ?s2" using assms by (auto simp: selection_ok_def split: option.splits)
    show ?thesis
      unfolding loop_body_reject [OF Data False refl]
      using s2 fallback_selection [OF s2] by (simp split: option.split)
  qed
qed

lemma ramp_selection:
  "ramp n a sb step_bps mx w s = Some r \<Longrightarrow> selection_ok s \<Longrightarrow> selection_ok r"
proof (induction n arbitrary: s)
  case 0
  then show ?case by simp
next
  case (Suc n)
  show ?case
  proof (cases "current s \<le> fadd mx 1")
    case False
    then show ?thesis using Suc.prems by simp
  next
    case True
    show ?thesis
    proof (cases "loop_body a sb step_bps w s")
      case (Break s1)
      then show ?thesis
        using Suc.prems True loop_body_selection [OF Suc.prems(2), of a sb step_bps w] by simp
    next
      case (Continue s1)
      then have "selection_ok s1"
        using loop_body_selection [OF Suc.prems(2), of a sb step_bps w] by simp
      moreover have "ramp n a sb step_bps mx w s1 = Some r"
        using Suc.prems True Continue by simp
      ultimately show ?thesis using Suc.IH by blast
    qed
  qed
qed

lemma stepdown_steps: "prefix (steps s) (steps (stepdown a sb step_bps w l s))"
  by (simp add: stepdown_def Let_def split: iperf_result.split)

lemma stepdown_last_ok_None:
  "last_ok (stepdown a sb step_bps w l s) = last_ok s \<or>
   (\<exists>x. last_ok (stepdown a sb step_bps w l s) = Some x \<and> role x = Fallback)"
  by (simp add: stepdown_def Let_def new_step_def split: iperf_result.split)

lemma first_rejected:
  assumes "ramp n a sb step_bps mx w (init sb) = Some r"
    and "steps r \<noteq> []" and "\<not> ok (hd (steps r))"
  shows "last_ok r = None \<and> length (steps r) = 1"
proof -
  obtain k s' where h: "heads k a sb step_bps mx w (init sb) = Some s'"
    and c: "(\<not> current s' \<le> fadd mx 1 \<and> r = s') \<or>
      (current s' \<le> fadd mx 1 \<and> loop_body a sb step_bps w s' = Break r)"
    using ramp_heads [OF assms(1)] by blast
  have rs: "ramping s'" and len: "length (steps s') = k"
    using heads_ramping [OF h ramping_init] by (simp_all add: init_def)
  have okhd: "steps s' \<noteq> [] \<Longrightarrow> ok (hd (steps s'))"
    using rs by (cases "steps s'") (simp_all add: ramping_def)
  from c show ?thesis
  proof
    assume "\<not> current s' \<le> fadd mx 1 \<and> r = s'"
    then show ?thesis using assms(2,3) okhd by simp
  next
    assume b: "current s' \<le> fadd mx 1 \<and> loop_body a sb step_bps w s' = Break r"
    show ?thesis
    proof (cases "run_iperf a w (calls s') (bps_to_str (current s'))")
      case (Err e se c)
      then have r: "r = s'\<lparr>calls := calls s' + 1,
              steps := steps s' @ [(new_step (current s') (bps_to_str (current s')) Normal)
                 \<lparr>error := Some e, cmd := Some c, stderr := se\<rparr>],
              stop_reason := e\<rparr>"
        using b loop_body_error [OF Err, of sb step_bps] by simp
      have "steps s' = []"
        using assms(3) okhd unfolding r by (cases "steps s'") auto
      then show ?thesis using rs unfolding r by (simp add: ramping_def)
    next
      case (Data d c)
      show ?thesis
      proof (cases "within_bounds a (prev_throughput s') (extract_udp_stats d)")
        case True
        then show ?thesis using b loop_body_accept [OF Data True, of sb step_bps] by simp
      next
        case False
        let ?s2 = "s'\<lparr>calls := calls s' + 1,
              steps := steps s' @ [(new_step (current s') (bps_to_str (current s')) Normal)
                 \<lparr>measured := Some (extract_udp_stats d), cmd := Some c, ok := False\<rparr>],
              stop_reason := last_reason a (prev_throughput s') (extract_udp_stats d) (stop_reason s')\<rparr>"
        show ?thesis
        proof (cases "steps s'")
          case Nil
          then have "last_ok s' = None" using rs by (simp add: ramping_def)
          then have "r = ?s2"
            using b loop_body_reject [OF Data False refl, of sb step_bps] by simp
          then show ?thesis using Nil \<open>last_ok s' = None\<close> by simp
        next
          case (Cons x xs)
          then obtain l where l: "last_ok s' = Some l" using rs by (simp add: ramping_def)
          have nf: "\<not> fallback_attempted s'" using rs by (simp add: ramping_def)
          have "r = fallback a sb step_bps w l ?s2"
            using b l nf loop_body_reject [OF Data False refl, of sb step_bps] by simp
          have "prefix (steps ?s2) (steps r)"
            unfolding \<open>r = fallback a sb step_bps w l ?s2\<close>
            using stepdown_steps [of _ a sb step_bps w l]
            by (auto simp: fallback_def Let_def split: iperf_result.split
                intro: prefix_order.trans [OF _ stepdown_steps])
          then have "hd (steps r) = x" using Cons by (auto simp: prefix_def)
          moreover have "ok x" using okhd Cons by simp
          ultimately show ?thesis using assms(3) by simp
        qed
      qed
    qed
  qed
qed

text \<open>
  C8. The final \<open>selected\<close> value is either absent or one of the step records in \<open>steps\<close>
  (the same record, so the same target and role) whose \<open>ok\<close> flag is true; it is absent in
  particular when the first probe of the session is rejected.
\<close>

theorem selected_is_accepted_step:
  assumes "main fuel a w now = Some (Inr out)"
  shows "(out_selected out = None \<or>
          (\<exists>x \<in> set (out_steps out). out_selected out = Some x \<and> ok x)) \<and>
         (out_steps out \<noteq> [] \<and> \<not> ok (hd (out_steps out)) \<longrightarrow> out_selected out = None)"
proof -
  obtain start_bps step_bps mx s where
    r: "ramp fuel a start_bps step_bps mx w (init start_bps) = Some s"
    and o: "out = \<lparr>out_meta = build_meta a now start_bps step_bps mx
                   (case meta a of Some d \<Rightarrow> d | None \<Rightarrow> Map.empty),
            out_steps = steps s, out_selected = last_ok s,
            out_stop_reason = stop_reason s\<rparr>"
    using main_Inr [OF assms] by (elim exE conjE)
  have "selection_ok (init start_bps)" by (simp add: selection_ok_def init_def)
  then have "selection_ok s" using ramp_selection [OF r] by simp
  then have "last_ok s = None \<or> (\<exists>x \<in> set (steps s). last_ok s = Some x \<and> ok x)"
    by (auto simp: selection_ok_def split: option.splits)
  moreover have "steps s \<noteq> [] \<and> \<not> ok (hd (steps s)) \<longrightarrow> last_ok s = None"
    using first_rejected [OF r] by blast
  ultimately show ?thesis using o by simp
qed

theorem selected_is_accepted_step_witness:
  "\<exists>out. main 1 scenario_args lossy_and_jittery ''2026-01-01T00:00:00+00:00'' = Some (Inr out) \<and>
     out_steps out \<noteq> [] \<and> \<not> ok (hd (out_steps out)) \<and> out_selected out = None"
proof -
  have "map_option (\<lambda>s. map ok (steps s))
      (ramp 1 scenario_args 2000000000 2000000000 10000000000 lossy_and_jittery (init 2000000000))
    = Some [False]"
    by code_simp
  then obtain s where
    s: "ramp 1 scenario_args 2000000000 2000000000 10000000000 lossy_and_jittery (init 2000000000) = Some s"
    and k: "map ok (steps s) = [False]"
    by auto
  let ?out = "\<lparr>out_meta = build_meta scenario_args ''2026-01-01T00:00:00+00:00'' 2000000000
                  2000000000 10000000000
                  (case meta scenario_args of Some d \<Rightarrow> d | None \<Rightarrow> Map.empty),
               out_steps = steps s, out_selected = last_ok s, out_stop_reason = stop_reason s\<rparr>"
  have m: "main 1 scenario_args lossy_and_jittery ''2026-01-01T00:00:00+00:00'' = Some (Inr ?out)"
    by (rule main_output [OF scenario_parse s])
  have h: "out_steps ?out \<noteq> [] \<and> \<not> ok (hd (out_steps ?out))"
    using k by (cases "steps s") auto
  show ?thesis
    using selected_is_accepted_step [OF m] m h by blast
qed

subsection \<open>Stop reasons\<close>

lemma run_iperf_error:
  assumes "run_iperf a w n b = Err e se c"
  shows "e = ''timeout'' \<or> e = ''json_parse'' \<or>
     (\<exists>returncode. returncode \<noteq> 0 \<and> e = ''exit_'' @ str_int returncode)"
  using assms
  by (auto simp: run_iperf_def Let_def split: proc_result.splits if_splits option.splits)

lemma last_reason_threshold:
  "\<not> within_bounds a prev st \<Longrightarrow> last_reason a prev st r \<in> set threshold_reasons"
  by (auto simp: last_reason_def threshold_reasons_def within_bounds_def exceeds_def dropped_def
      split: option.splits)

lemma ramp_stop_reason:
  assumes "ramp n a sb step_bps mx w (init sb) = Some r"
  shows "code_stop_reason (stop_reason r)"
proof -
  obtain k s' where h: "heads k a sb step_bps mx w (init sb) = Some s'"
    and c: "(\<not> current s' \<le> fadd mx 1 \<and> r = s') \<or>
      (current s' \<le> fadd mx 1 \<and> loop_body a sb step_bps w s' = Break r)"
    using ramp_heads [OF assms(1)] by blast
  have rs: "ramping s'"
    using heads_ramping [OF h ramping_init] by simp
  from c show ?thesis
  proof
    assume "\<not> current s' \<le> fadd mx 1 \<and> r = s'"
    then show ?thesis using rs by (simp add: ramping_def code_stop_reason_def)
  next
    assume b: "current s' \<le> fadd mx 1 \<and> loop_body a sb step_bps w s' = Break r"
    show ?thesis
    proof (cases "run_iperf a w (calls s') (bps_to_str (current s'))")
      case (Err e se c)
      then have "stop_reason r = e"
        using b loop_body_error [OF Err, of sb step_bps] by auto
      then show ?thesis using run_iperf_error [OF Err] by (auto simp: code_stop_reason_def)
    next
      case (Data d c)
      show ?thesis
      proof (cases "within_bounds a (prev_throughput s') (extract_udp_stats d)")
        case True
        then show ?thesis using b loop_body_accept [OF Data True, of sb step_bps] by simp
      next
        case False
        let ?t = "last_reason a (prev_throughput s') (extract_udp_stats d) (stop_reason s')"
        let ?s2 = "s'\<lparr>calls := calls s' + 1,
              steps := steps s' @ [(new_step (current s') (bps_to_str (current s')) Normal)
                 \<lparr>measured := Some (extract_udp_stats d), cmd := Some c, ok := False\<rparr>],
              stop_reason := ?t\<rparr>"
        have t: "?t \<in> set threshold_reasons" by (rule last_reason_threshold [OF False])
        have "r = ?s2 \<or> (\<exists>l. r = fallback a sb step_bps w l ?s2)"
          using b loop_body_reject [OF Data False refl, of sb step_bps]
          by (auto split: option.splits if_splits)
        then have "stop_reason r = ?t \<or> stop_reason r = ?t @ ''_fallback_stepdown'' \<or>
            stop_reason r = ?t @ ''_fallback_confirmed''"
          using fallback_reason [of a sb step_bps w _ ?s2] by auto
        then show ?thesis using t by (auto simp: code_stop_reason_def)
      qed
    qed
  qed
qed

text \<open>
  C4 (as amended). The stop reason of a completed session is \<open>max_reached\<close>; or one of
  \<open>loss_threshold\<close>, \<open>jitter_threshold\<close>, \<open>throughput_drop\<close>, alone or followed by
  \<open>_fallback_confirmed\<close> or \<open>_fallback_stepdown\<close>; or the error string of a failed ramp
  probe as \<open>run_iperf\<close> reports it: \<open>timeout\<close>, \<open>json_parse\<close>, or \<open>exit_\<close> followed by the
  non-zero return code. No other string is produced.
\<close>

theorem stop_reason_values:
  assumes "main fuel a w now = Some (Inr out)"
  shows "code_stop_reason (out_stop_reason out)"
proof -
  obtain start_bps step_bps mx s where
    r: "ramp fuel a start_bps step_bps mx w (init start_bps) = Some s"
    and o: "out = \<lparr>out_meta = build_meta a now start_bps step_bps mx
                   (case meta a of Some d \<Rightarrow> d | None \<Rightarrow> Map.empty),
            out_steps = steps s, out_selected = last_ok s,
            out_stop_reason = stop_reason s\<rparr>"
    using main_Inr [OF assms] by (elim exE conjE)
  show ?thesis using ramp_stop_reason [OF r] o by simp
qed

theorem stop_reason_values_witness:
  "\<exists>out. main 1 scenario_args exits_nonzero ''2026-01-01T00:00:00+00:00'' = Some (Inr out) \<and>
     out_stop_reason out = ''exit_1'' \<and> code_stop_reason (out_stop_reason out)"
proof -
  have "map_option stop_reason
      (ramp 1 scenario_args 2000000000 2000000000 10000000000 exits_nonzero (init 2000000000))
    = Some ''exit_1''"
    by code_simp
  then obtain s where
    s: "ramp 1 scenario_args 2000000000 2000000000 10000000000 exits_nonzero (init 2000000000) = Some s"
    and k: "stop_reason s = ''exit_1''"
    by auto
  let ?out = "\<lparr>out_meta = build_meta scenario_args ''2026-01-01T00:00:00+00:00'' 2000000000
                  2000000000 10000000000
                  (case meta scenario_args of Some d \<Rightarrow> d | None \<Rightarrow> Map.empty),
               out_steps = steps s, out_selected = last_ok s, out_stop_reason = stop_reason s\<rparr>"
  have m: "main 1 scenario_args exits_nonzero ''2026-01-01T00:00:00+00:00'' = Some (Inr ?out)"
    by (rule main_output [OF scenario_parse s])
  show ?thesis
    using stop_reason_values [OF m] m k by auto
qed

text \<open>
  The claim as stated fails: a probe that exits with code 1 ends the session with the stop
  reason \<open>exit_1\<close>, which is not in the specification's list.
\<close>

theorem stop_reason_list_counterexample:
  "map_option (map_sum id out_stop_reason)
     (main 1 scenario_args exits_nonzero ''2026-01-01T00:00:00+00:00'') = Some (Inr ''exit_1'') \<and>
   ''exit_1'' \<notin> set spec_stop_reasons"
  by code_simp

subsection \<open>Failed probes\<close>

lemma stepdown_failed:
  assumes "max sb (fsub (target_bps l) step_bps) < target_bps l"
    and "run_iperf a w (calls s) (bps_to_str (max sb (fsub (target_bps l) step_bps))) = Err e se c"
  shows "stepdown a sb step_bps w l s = s\<lparr>calls := calls s + 1\<rparr>"
  using assms by (simp add: stepdown_def Let_def)

lemma stepdown_calls:
  "calls (stepdown a sb step_bps w l s) =
     calls s + (if max sb (fsub (target_bps l) step_bps) < target_bps l then 1 else 0)"
  by (simp add: stepdown_def Let_def split: iperf_result.split)

lemma stepdown_last_ok:
  "last_ok (stepdown a sb step_bps w l s) = last_ok s \<or>
   (\<exists>x. last_ok (stepdown a sb step_bps w l s) = Some x \<and> role x = Fallback \<and> ok x)"
  by (simp add: stepdown_def Let_def new_step_def split: iperf_result.split)

lemma fallback_confirm_failed:
  assumes "run_iperf a w (calls s) (bps_to_str (target_bps l)) = Err e se c"
  shows "fallback a sb step_bps w l s =
     stepdown a sb step_bps w l (s\<lparr>fallback_attempted := True, calls := calls s + 1\<rparr>)"
  using assms by (simp add: fallback_def Let_def)

text \<open>
  C1 (as amended). A failed outcome (timeout, non-zero exit, unreadable output) of a normal
  ramp probe ends the session at once: the failed step is recorded, no further probe is
  issued, the stop reason is the error string and the selection is the step last accepted
  (possibly none). A failed confirm probe does not end the session: it counts as a confirm
  that did not pass, the step-down probe is still issued when its target is strictly below
  the last accepted target, and the stop reason stays the threshold reason (with the
  step-down suffix when that probe is accepted). A failed step-down probe is the last
  probe of the session and leaves stop reason and selection as they were.
\<close>

theorem failed_probe_outcomes:
  "(heads k a sb step_bps mx w (init sb) = Some s \<and> current s \<le> fadd mx 1 \<and>
    run_iperf a w (calls s) (bps_to_str (current s)) = Err e se c \<longrightarrow>
      (\<exists>r. ramp (Suc k + n) a sb step_bps mx w (init sb) = Some r \<and>
           calls r = calls s + 1 \<and> stop_reason r = e \<and> last_ok r = last_ok s \<and>
           (\<exists>x. steps r = steps s @ [x] \<and> error x = Some e \<and> \<not> ok x \<and> role x = Normal))) \<and>
   (run_iperf a wfb (calls scf) (bps_to_str (target_bps l)) = Err ecf secf ccf \<longrightarrow>
      calls (fallback a sb step_bps wfb l scf) =
        calls scf + (if max sb (fsub (target_bps l) step_bps) < target_bps l then 2 else 1) \<and>
      (stop_reason (fallback a sb step_bps wfb l scf) = stop_reason scf \<or>
       stop_reason (fallback a sb step_bps wfb l scf) = stop_reason scf @ ''_fallback_stepdown'') \<and>
      (last_ok (fallback a sb step_bps wfb l scf) = last_ok scf \<or>
       (\<exists>x. last_ok (fallback a sb step_bps wfb l scf) = Some x \<and> role x = Fallback \<and> ok x))) \<and>
   (max sb (fsub (target_bps l) step_bps) < target_bps l \<and>
    run_iperf a wfb (calls sdn) (bps_to_str (max sb (fsub (target_bps l) step_bps))) = Err edn sedn cdn \<longrightarrow>
      calls (stepdown a sb step_bps wfb l sdn) = calls sdn + 1 \<and>
      stop_reason (stepdown a sb step_bps wfb l sdn) = stop_reason sdn \<and>
      last_ok (stepdown a sb step_bps wfb l sdn) = last_ok sdn)"
proof (intro conjI impI)
  assume h: "heads k a sb step_bps mx w (init sb) = Some s \<and> current s \<le> fadd mx 1 \<and>
    run_iperf a w (calls s) (bps_to_str (current s)) = Err e se c"
  let ?x = "(new_step (current s) (bps_to_str (current s)) Normal)
      \<lparr>error := Some e, cmd := Some c, stderr := se\<rparr>"
  let ?r = "s\<lparr>calls := calls s + 1, steps := steps s @ [?x], stop_reason := e\<rparr>"
  have b: "loop_body a sb step_bps w s = Break ?r"
    using h by (intro loop_body_error) simp
  have "ramp (k + Suc n) a sb step_bps mx w (init sb) = ramp (Suc n) a sb step_bps mx w s"
    using h by (intro heads_ramp) simp
  then have "ramp (Suc k + n) a sb step_bps mx w (init sb) = Some ?r"
    using h b by simp
  then show "\<exists>r. ramp (Suc k + n) a sb step_bps mx w (init sb) = Some r \<and>
           calls r = calls s + 1 \<and> stop_reason r = e \<and> last_ok r = last_ok s \<and>
           (\<exists>x. steps r = steps s @ [x] \<and> error x = Some e \<and> \<not> ok x \<and> role x = Normal)"
    by (intro exI [of _ ?r]) (simp add: new_step_def)
next
  assume h: "run_iperf a wfb (calls scf) (bps_to_str (target_bps l)) = Err ecf secf ccf"
  let ?s = "scf\<lparr>fallback_attempted := True, calls := calls scf + 1\<rparr>"
  have f: "fallback a sb step_bps wfb l scf = stepdown a sb step_bps wfb l ?s"
    by (rule fallback_confirm_failed [OF h])
  show "calls (fallback a sb step_bps wfb l scf) =
        calls scf + (if max sb (fsub (target_bps l) step_bps) < target_bps l then 2 else 1)"
    unfolding f stepdown_calls by simp
  show "stop_reason (fallback a sb step_bps wfb l scf) = stop_reason scf \<or>
       stop_reason (fallback a sb step_bps wfb l scf) = stop_reason scf @ ''_fallback_stepdown''"
    unfolding f using stepdown_reason [of a sb step_bps wfb l ?s] by simp
  show "last_ok (fallback a sb step_bps wfb l scf) = last_ok scf \<or>
       (\<exists>x. last_ok (fallback a sb step_bps wfb l scf) = Some x \<and> role x = Fallback \<and> ok x)"
    unfolding f using stepdown_last_ok [of a sb step_bps wfb l ?s] by simp
next
  assume h: "max sb (fsub (target_bps l) step_bps) < target_bps l \<and>
    run_iperf a wfb (calls sdn) (bps_to_str (max sb (fsub (target_bps l) step_bps))) = Err edn sedn cdn"
  then have f: "stepdown a sb step_bps wfb l sdn = sdn\<lparr>calls := calls sdn + 1\<rparr>"
    by (intro stepdown_failed) simp_all
  show "calls (stepdown a sb step_bps wfb l sdn) = calls sdn + 1"
    "stop_reason (stepdown a sb step_bps wfb l sdn) = stop_reason sdn"
    "last_ok (stepdown a sb step_bps wfb l sdn) = last_ok sdn"
    unfolding f by simp_all
qed

theorem failed_probe_outcomes_witness:
  "(\<exists>r. ramp 3 scenario_args 2000000000 2000000000 10000000000 fails_from_third
           (init 2000000000) = Some r \<and>
         calls r = 3 \<and> stop_reason r = ''timeout'') \<and>
   calls (fallback scenario_args 2000000000 2000000000 fallback_probes_fail
            (new_step 4000000000 ''4.000G'' Normal)
            ((init 2000000000)\<lparr>stop_reason := ''loss_threshold'', calls := 3\<rparr>)) = 5 \<and>
   stop_reason (stepdown scenario_args 2000000000 2000000000 fallback_probes_fail
            (new_step 4000000000 ''4.000G'' Normal)
            ((init 2000000000)\<lparr>stop_reason := ''loss_threshold'', calls := 4\<rparr>)) =
     ''loss_threshold''"
proof -
  let ?l = "new_step 4000000000 ''4.000G'' Normal"
  let ?sc = "(init 2000000000)\<lparr>stop_reason := ''loss_threshold'', calls := 3\<rparr>"
  let ?sd = "(init 2000000000)\<lparr>stop_reason := ''loss_threshold'', calls := 4\<rparr>"
  have "map_option (\<lambda>s. (calls s, current s))
      (heads 2 scenario_args 2000000000 2000000000 10000000000 fails_from_third (init 2000000000))
    = Some (2, 6000000000)"
    by code_simp
  then obtain s where
    h: "heads 2 scenario_args 2000000000 2000000000 10000000000 fails_from_third
          (init 2000000000) = Some s"
    and cs: "calls s = 2" "current s = 6000000000"
    by auto
  have ea: "run_iperf scenario_args fails_from_third 2 (bps_to_str 6000000000) =
      Err ''timeout'' None ''iperf3 -c 192.0.2.1 -p 5201 -t 15 -P 4 -J -u -b 6.000G''"
    by code_simp
  have eb: "run_iperf scenario_args fallback_probes_fail 3 (bps_to_str 4000000000) =
      Err ''timeout'' None ''iperf3 -c 192.0.2.1 -p 5201 -t 15 -P 4 -J -u -b 4.000G''"
    by code_simp
  have ec: "run_iperf scenario_args fallback_probes_fail 4 (bps_to_str 2000000000) =
      Err ''timeout'' None ''iperf3 -c 192.0.2.1 -p 5201 -t 15 -P 4 -J -u -b 2.000G''"
    by code_simp
  have t: "target_bps ?l = 4000000000" by (simp add: new_step_def)
  have i: "calls ?sc = 3" "calls ?sd = 4" "stop_reason ?sd = ''loss_threshold''"
    by (simp_all add: init_def)
  show ?thesis
    using failed_probe_outcomes [where k = 2 and a = scenario_args and sb = 2000000000
        and step_bps = 2000000000 and mx = 10000000000 and w = fails_from_third and s = s
        and e = "''timeout''" and se = None
        and c = "''iperf3 -c 192.0.2.1 -p 5201 -t 15 -P 4 -J -u -b 6.000G''" and n = 0
        and wfb = fallback_probes_fail and scf = ?sc and l = ?l
        and ecf = "''timeout''" and secf = None
        and ccf = "''iperf3 -c 192.0.2.1 -p 5201 -t 15 -P 4 -J -u -b 4.000G''"
        and sdn = ?sd and edn = "''timeout''" and sedn = None
        and cdn = "''iperf3 -c 192.0.2.1 -p 5201 -t 15 -P 4 -J -u -b 2.000G''"]
      h cs ea eb ec t i
    by (auto simp: sample_floats)
qed

text \<open>
  The claim as stated fails for the confirm probe: after two accepted steps and a loss
  violation, the confirm probe (the fourth probe, at 4 Gbit/s) times out, yet a fifth probe
  is issued and the stop reason is \<open>loss_threshold\<close>, not \<open>timeout\<close>.
\<close>

theorem failed_confirm_counterexample:
  "run_iperf scenario_args fallback_probes_fail 3 (bps_to_str 4000000000) =
     Err ''timeout'' None ''iperf3 -c 192.0.2.1 -p 5201 -t 15 -P 4 -J -u -b 4.000G'' \<and>
   map_option calls
     (ramp 4 scenario_args 2000000000 2000000000 10000000000 fallback_probes_fail (init 2000000000))
     = Some 5 \<and>
   map_option stop_reason
     (ramp 4 scenario_args 2000000000 2000000000 10000000000 fallback_probes_fail (init 2000000000))
     = Some ''loss_threshold''"
  by code_simp

text \<open>
  C3, at the input where it fails: the confirm probe times out. Five probes are issued
  (two accepted ramp steps, the violating ramp step, the confirm probe, the step-down
  probe) and four step records are written: none for the confirm probe.
\<close>

theorem failed_confirm_not_recorded:
  "map_option calls
     (ramp 4 scenario_args 2000000000 2000000000 10000000000 confirm_times_out (init 2000000000))
     = Some 5 \<and>
   map_option roles_recorded
     (ramp 4 scenario_args 2000000000 2000000000 10000000000 confirm_times_out (init 2000000000))
     = Some [Normal, Normal, Normal, Fallback]"
  by code_simp

subsection \<open>The fallback protocol\<close>

lemma fallback_confirmed:
  assumes "accepted a (prev_throughput s) (run_iperf a w (calls s) (bps_to_str (target_bps l)))"
  shows "calls (fallback a sb step_bps w l s) = calls s + 1 \<and>
     stop_reason (fallback a sb step_bps w l s) = stop_reason s @ ''_fallback_confirmed'' \<and>
     (\<exists>x. last_ok (fallback a sb step_bps w l s) = Some x \<and> role x = Confirm \<and>
          target_bps x = target_bps l \<and> ok x \<and> x \<in> set (steps (fallback a sb step_bps w l s))) \<and>
     confirms (steps (fallback a sb step_bps w l s)) = confirms (steps s) + 1 \<and>
     fallbacks (steps (fallback a sb step_bps w l s)) = fallbacks (steps s)"
  using assms
  by (auto simp: fallback_def Let_def accepted_def fallback_check_eq new_step_def
      confirms_def fallbacks_def split: iperf_result.splits)

lemma fallback_no_stepdown:
  assumes "\<not> accepted a (prev_throughput s) (run_iperf a w (calls s) (bps_to_str (target_bps l)))"
    and "\<not> max sb (fsub (target_bps l) step_bps) < target_bps l"
  shows "calls (fallback a sb step_bps w l s) = calls s + 1 \<and>
     stop_reason (fallback a sb step_bps w l s) = stop_reason s \<and>
     last_ok (fallback a sb step_bps w l s) = last_ok s \<and>
     confirms (steps (fallback a sb step_bps w l s)) \<le> confirms (steps s) + 1 \<and>
     fallbacks (steps (fallback a sb step_bps w l s)) = fallbacks (steps s)"
  using assms
  by (auto simp: fallback_def stepdown_def Let_def accepted_def fallback_check_eq new_step_def
      confirms_def fallbacks_def split: iperf_result.splits)

lemma fallback_stepdown_accepted:
  assumes "\<not> accepted a (prev_throughput s) (run_iperf a w (calls s) (bps_to_str (target_bps l)))"
    and "max sb (fsub (target_bps l) step_bps) < target_bps l"
    and "accepted a (prev_throughput s)
           (run_iperf a w (calls s + 1) (bps_to_str (max sb (fsub (target_bps l) step_bps))))"
  shows "calls (fallback a sb step_bps w l s) = calls s + 2 \<and>
     stop_reason (fallback a sb step_bps w l s) = stop_reason s @ ''_fallback_stepdown'' \<and>
     (\<exists>x. last_ok (fallback a sb step_bps w l s) = Some x \<and> role x = Fallback \<and>
          target_bps x = max sb (fsub (target_bps l) step_bps) \<and> ok x \<and>
          x \<in> set (steps (fallback a sb step_bps w l s))) \<and>
     confirms (steps (fallback a sb step_bps w l s)) \<le> confirms (steps s) + 1 \<and>
     fallbacks (steps (fallback a sb step_bps w l s)) = fallbacks (steps s) + 1"
  using assms
  by (auto simp: fallback_def stepdown_def Let_def accepted_def fallback_check_eq new_step_def
      confirms_def fallbacks_def split: iperf_result.splits)

lemma fallback_stepdown_rejected:
  assumes "\<not> accepted a (prev_throughput s) (run_iperf a w (calls s) (bps_to_str (target_bps l)))"
    and "max sb (fsub (target_bps l) step_bps) < target_bps l"
    and "\<not> accepted a (prev_throughput s)
           (run_iperf a w (calls s + 1) (bps_to_str (max sb (fsub (target_bps l) step_bps))))"
  shows "calls (fallback a sb step_bps w l s) = calls s + 2 \<and>
     stop_reason (fallback a sb step_bps w l s) = stop_reason s \<and>
     last_ok (fallback a sb step_bps w l s) = last_ok s \<and>
     confirms (steps (fallback a sb step_bps w l s)) \<le> confirms (steps s) + 1 \<and>
     fallbacks (steps (fallback a sb step_bps w l s)) \<le> fallbacks (steps s) + 1"
  using assms
  by (auto simp: fallback_def stepdown_def Let_def accepted_def fallback_check_eq new_step_def
      confirms_def fallbacks_def split: iperf_result.splits)

lemma ramping_no_fallback_steps:
  assumes "ramping s"
  shows "confirms (steps s) = 0 \<and> fallbacks (steps s) = 0"
proof -
  have "\<forall>x \<in> set (steps s). role x = Normal"
    using assms by (simp add: ramping_def list_all_iff)
  then show ?thesis by (simp add: confirms_def fallbacks_def)
qed

text \<open>
  C2. On a threshold violation after at least one accepted step (there is only ever one such
  violation, the session ends with it) the controller issues one confirm probe at the last
  accepted target. If it is accepted it becomes the selection and the stop reason gains
  \<open>_fallback_confirmed\<close>. If it is not, one step-down probe is issued at
  max(start, last accepted target - step), only when that is strictly below the last
  accepted target, and on acceptance it becomes the selection, with \<open>_fallback_stepdown\<close>.
  In every case the session ends there: the count of probes is fixed by the case, and at
  most one confirm-role and one fallback-role step are recorded.
\<close>

theorem fallback_protocol_once:
  assumes "heads k a sb step_bps mx w (init sb) = Some s" and "0 < k"
    and "current s \<le> fadd mx 1"
    and "run_iperf a w (calls s) (bps_to_str (current s)) = Data d c"
    and "\<not> within_bounds a (prev_throughput s) (extract_udp_stats d)"
  shows "\<exists>l r. last_ok s = Some l \<and> ok l \<and> calls s = k \<and>
     ramp (Suc k + n) a sb step_bps mx w (init sb) = Some r \<and>
     confirms (steps r) \<le> 1 \<and> fallbacks (steps r) \<le> 1 \<and>
     (if accepted a (prev_throughput s) (run_iperf a w (k + 1) (bps_to_str (target_bps l)))
      then calls r = k + 2 \<and>
           stop_reason r =
             last_reason a (prev_throughput s) (extract_udp_stats d) ''max_reached''
             @ ''_fallback_confirmed'' \<and>
           (\<exists>x. last_ok r = Some x \<and> role x = Confirm \<and> target_bps x = target_bps l \<and>
                ok x \<and> x \<in> set (steps r))
      else if max sb (fsub (target_bps l) step_bps) < target_bps l
      then calls r = k + 3 \<and>
           (if accepted a (prev_throughput s)
                 (run_iperf a w (k + 2) (bps_to_str (max sb (fsub (target_bps l) step_bps))))
            then stop_reason r =
                   last_reason a (prev_throughput s) (extract_udp_stats d) ''max_reached''
                   @ ''_fallback_stepdown'' \<and>
                 (\<exists>x. last_ok r = Some x \<and> role x = Fallback \<and>
                      target_bps x = max sb (fsub (target_bps l) step_bps) \<and> ok x \<and>
                      x \<in> set (steps r))
            else stop_reason r =
                   last_reason a (prev_throughput s) (extract_udp_stats d) ''max_reached'' \<and>
                 last_ok r = Some l)
      else calls r = k + 2 \<and>
           stop_reason r =
             last_reason a (prev_throughput s) (extract_udp_stats d) ''max_reached'' \<and>
           last_ok r = Some l)"
proof -
  have rs: "ramping s" and len: "length (steps s) = k"
    using heads_ramping [OF assms(1) ramping_init] by (simp_all add: init_def)
  have ne: "steps s \<noteq> []" using len assms(2) by auto
  define l where "l = last (steps s)"
  have l: "last_ok s = Some l" using rs ne by (simp add: ramping_def l_def)
  have "l \<in> set (steps s)" using ne by (simp add: l_def)
  then have okl: "ok l" using rs by (simp add: ramping_def list_all_iff)
  have cs: "calls s = k" using rs len by (simp add: ramping_def)
  have sr: "stop_reason s = ''max_reached''" using rs by (simp add: ramping_def)
  have nf: "\<not> fallback_attempted s" using rs by (simp add: ramping_def)
  let ?t = "last_reason a (prev_throughput s) (extract_udp_stats d) ''max_reached''"
  define s2 where "s2 = s\<lparr>calls := calls s + 1,
      steps := steps s @ [(new_step (current s) (bps_to_str (current s)) Normal)
         \<lparr>measured := Some (extract_udp_stats d), cmd := Some c, ok := False\<rparr>],
      stop_reason := last_reason a (prev_throughput s) (extract_udp_stats d) (stop_reason s)\<rparr>"
  define r where "r = fallback a sb step_bps w l s2"
  have b: "loop_body a sb step_bps w s = Break r"
    using loop_body_reject [OF assms(4,5) s2_def, of sb step_bps] l nf by (simp add: r_def)
  have "ramp (k + Suc n) a sb step_bps mx w (init sb) = ramp (Suc n) a sb step_bps mx w s"
    by (rule heads_ramp [OF assms(1)])
  then have run: "ramp (Suc k + n) a sb step_bps mx w (init sb) = Some r"
    using b assms(3) by simp
  have p2: "calls s2 = k + 1" "prev_throughput s2 = prev_throughput s" "stop_reason s2 = ?t"
    "last_ok s2 = Some l"
    using cs sr l by (simp_all add: s2_def)
  have z: "confirms (steps s2) = 0" "fallbacks (steps s2) = 0"
    using ramping_no_fallback_steps [OF rs]
    by (simp_all add: s2_def confirms_def fallbacks_def new_step_def)
  let ?confirm = "run_iperf a w (k + 1) (bps_to_str (target_bps l))"
  let ?down = "max sb (fsub (target_bps l) step_bps)"
  let ?retry = "run_iperf a w (k + 2) (bps_to_str ?down)"
  have k2: "k + 1 + 1 = k + 2" "k + 1 + 2 = k + 3" by simp_all
  have shape: "confirms (steps r) \<le> 1 \<and> fallbacks (steps r) \<le> 1 \<and>
     (if accepted a (prev_throughput s) ?confirm
      then calls r = k + 2 \<and> stop_reason r = ?t @ ''_fallback_confirmed'' \<and>
           (\<exists>x. last_ok r = Some x \<and> role x = Confirm \<and> target_bps x = target_bps l \<and>
                ok x \<and> x \<in> set (steps r))
      else if ?down < target_bps l
      then calls r = k + 3 \<and>
           (if accepted a (prev_throughput s) ?retry
            then stop_reason r = ?t @ ''_fallback_stepdown'' \<and>
                 (\<exists>x. last_ok r = Some x \<and> role x = Fallback \<and> target_bps x = ?down \<and>
                      ok x \<and> x \<in> set (steps r))
            else stop_reason r = ?t \<and> last_ok r = Some l)
      else calls r = k + 2 \<and> stop_reason r = ?t \<and> last_ok r = Some l)"
  proof (cases "accepted a (prev_throughput s) ?confirm")
    case True
    then show ?thesis
      using fallback_confirmed [where a = a and s = s2 and w = w and l = l and sb = sb
          and step_bps = step_bps] p2 z k2
      unfolding r_def by simp
  next
    case nc: False
    show ?thesis
    proof (cases "?down < target_bps l")
      case False
      then show ?thesis
        using nc fallback_no_stepdown [where a = a and s = s2 and w = w and l = l and sb = sb
            and step_bps = step_bps] p2 z k2
        unfolding r_def by simp
    next
      case dn: True
      show ?thesis
      proof (cases "accepted a (prev_throughput s) ?retry")
        case True
        then show ?thesis
          using nc dn fallback_stepdown_accepted [where a = a and s = s2 and w = w and l = l
              and sb = sb and step_bps = step_bps] p2 z k2
          unfolding r_def by simp
      next
        case False
        then show ?thesis
          using nc dn fallback_stepdown_rejected [where a = a and s = s2 and w = w and l = l
              and sb = sb and step_bps = step_bps] p2 z k2
          unfolding r_def by simp
      qed
    qed
  qed
  show ?thesis
    using l okl cs run shape by (intro exI [of _ l] exI [of _ r]) simp
qed

theorem fallback_protocol_once_witness:
  "\<exists>r. ramp 3 scenario_args 2000000000 2000000000 10000000000 confirm_saves (init 2000000000)
        = Some r \<and>
     calls r = 4 \<and> stop_reason r = ''loss_threshold_fallback_confirmed'' \<and>
     confirms (steps r) \<le> 1 \<and> fallbacks (steps r) \<le> 1 \<and>
     (\<exists>x. last_ok r = Some x \<and> role x = Confirm \<and> target_bps x = 4000000000 \<and> ok x)"
proof -
  let ?st = "extract_udp_stats (report None 2 1)"
  have "map_option (\<lambda>s. (calls s, current s, prev_throughput s, map_option target_bps (last_ok s)))
      (heads 2 scenario_args 2000000000 2000000000 10000000000 confirm_saves (init 2000000000))
    = Some (2, 6000000000, None, Some 4000000000)"
    by code_simp
  then obtain s where
    h: "heads 2 scenario_args 2000000000 2000000000 10000000000 confirm_saves
          (init 2000000000) = Some s"
    and cs: "calls s = 2" "current s = 6000000000" "prev_throughput s = None"
      "map_option target_bps (last_ok s) = Some 4000000000"
    by auto
  have d: "run_iperf scenario_args confirm_saves (calls s) (bps_to_str (current s)) =
      Data (report None 2 1) ''iperf3 -c 192.0.2.1 -p 5201 -t 15 -P 4 -J -u -b 6.000G''"
    unfolding cs by code_simp
  have nb: "\<not> within_bounds scenario_args (prev_throughput s) ?st"
    unfolding cs by code_simp
  have acc: "accepted scenario_args None
      (run_iperf scenario_args confirm_saves 3 (bps_to_str 4000000000))"
    by code_simp
  have lr: "last_reason scenario_args None ?st ''max_reached'' = ''loss_threshold''"
    by code_simp
  have le: "current s \<le> fadd 10000000000 1" unfolding cs sample_floats by simp
  have pos: "(0::nat) < 2" by simp
  from fallback_protocol_once [OF h pos le d nb, of 0]
  obtain l r where l: "last_ok s = Some l"
    and r: "ramp (Suc 2 + 0) scenario_args 2000000000 2000000000 10000000000 confirm_saves
          (init 2000000000) = Some r"
      "confirms (steps r) \<le> 1" "fallbacks (steps r) \<le> 1"
    and sh: "if accepted scenario_args (prev_throughput s)
           (run_iperf scenario_args confirm_saves (2 + 1) (bps_to_str (target_bps l)))
      then calls r = 2 + 2 \<and>
           stop_reason r =
             last_reason scenario_args (prev_throughput s) ?st ''max_reached''
             @ ''_fallback_confirmed'' \<and>
           (\<exists>x. last_ok r = Some x \<and> role x = Confirm \<and> target_bps x = target_bps l \<and>
                ok x \<and> x \<in> set (steps r))
      else if max 2000000000 (fsub (target_bps l) 2000000000) < target_bps l
      then calls r = 2 + 3 \<and>
           (if accepted scenario_args (prev_throughput s)
                 (run_iperf scenario_args confirm_saves (2 + 2)
                    (bps_to_str (max 2000000000 (fsub (target_bps l) 2000000000))))
            then stop_reason r =
                   last_reason scenario_args (prev_throughput s) ?st ''max_reached''
                   @ ''_fallback_stepdown'' \<and>
                 (\<exists>x. last_ok r = Some x \<and> role x = Fallback \<and>
                      target_bps x = max 2000000000 (fsub (target_bps l) 2000000000) \<and> ok x \<and>
                      x \<in> set (steps r))
            else stop_reason r =
                   last_reason scenario_args (prev_throughput s) ?st ''max_reached'' \<and>
                 last_ok r = Some l)
      else calls r = 2 + 2 \<and>
           stop_reason r =
             last_reason scenario_args (prev_throughput s) ?st ''max_reached'' \<and>
           last_ok r = Some l"
    by blast
  have t: "target_bps l = 4000000000" using cs(4) l by simp
  have three: "(2::nat) + 1 = 3" "Suc 2 + 0 = 3" "(2::nat) + 2 = 4" by simp_all
  have "calls r = 4 \<and> stop_reason r = ''loss_threshold_fallback_confirmed'' \<and>
     (\<exists>x. last_ok r = Some x \<and> role x = Confirm \<and> target_bps x = 4000000000 \<and> ok x)"
    using sh acc lr unfolding t cs three by auto
  then show ?thesis using r unfolding three by (intro exI [of _ r]) simp
qed

subsection \<open>The ramp when every probe is accepted\<close>

lemma ramp_count_iff:
  assumes "0 < step_bps"
  shows "(i < ramp_count start_bps step_bps mx) = (start_bps + of_nat i * step_bps \<le> mx + 1)"
proof (cases "start_bps \<le> mx + 1")
  case True
  define z where "z = \<lfloor>(mx + 1 - start_bps) / step_bps\<rfloor>"
  have "0 \<le> (mx + 1 - start_bps) / step_bps"
    using True assms by simp
  then have z0: "0 \<le> z"
    unfolding z_def by simp
  have "ramp_count start_bps step_bps mx = nat z + 1"
    using True by (simp add: ramp_count_def z_def)
  then have "(i < ramp_count start_bps step_bps mx) = (int i \<le> z)"
    using z0 by linarith
  also have "\<dots> = (of_int (int i) \<le> (mx + 1 - start_bps) / step_bps)"
    unfolding z_def by (simp only: le_floor_iff)
  also have "\<dots> = (of_nat i * step_bps \<le> mx + 1 - start_bps)"
    using assms by (simp add: pos_le_divide_eq)
  finally show ?thesis by (simp add: algebra_simps)
next
  case False
  have "0 \<le> of_nat i * step_bps" using assms by simp
  then show ?thesis using False by (simp add: ramp_count_def)
qed

lemma heads_snoc:
  "heads k a sb step_bps mx w s0 = Some s \<Longrightarrow> current s \<le> fadd mx 1 \<Longrightarrow>
   loop_body a sb step_bps w s = Continue s' \<Longrightarrow> heads (Suc k) a sb step_bps mx w s0 = Some s'"
proof (induction k arbitrary: s0)
  case 0
  then show ?case by simp
next
  case (Suc k)
  from Suc.prems(1) obtain s1 where b: "current s0 \<le> fadd mx 1"
    "loop_body a sb step_bps w s0 = Continue s1"
    and h: "heads k a sb step_bps mx w s1 = Some s"
    by (auto split: if_splits flow.splits)
  have "heads (Suc k) a sb step_bps mx w s1 = Some s'"
    by (rule Suc.IH [OF h Suc.prems(2,3)])
  then show ?case using b by simp
qed

lemma heads_unsnoc:
  "heads (Suc k) a sb step_bps mx w s0 = Some s' \<Longrightarrow>
   \<exists>s. heads k a sb step_bps mx w s0 = Some s \<and> current s \<le> fadd mx 1 \<and>
       loop_body a sb step_bps w s = Continue s'"
proof (induction k arbitrary: s0)
  case 0
  then show ?case by (auto split: if_splits flow.splits)
next
  case (Suc k)
  from Suc.prems obtain s1 where b: "current s0 \<le> fadd mx 1"
    "loop_body a sb step_bps w s0 = Continue s1"
    and h: "heads (Suc k) a sb step_bps mx w s1 = Some s'"
    by (auto split: if_splits flow.splits)
  from Suc.IH [OF h] obtain s where "heads k a sb step_bps mx w s1 = Some s"
    "current s \<le> fadd mx 1" "loop_body a sb step_bps w s = Continue s'"
    by blast
  then show ?case using b by (intro exI [of _ s]) simp
qed

text \<open>
  As long as the sums start + i step are floats, the float additions of the loop are exact
  and the loop heads lie on the grid.
\<close>

lemma heads_grid:
  assumes "fl step_bps = step_bps"
    and "\<And>i. i \<le> n \<Longrightarrow> fl (sb + of_nat i * step_bps) = sb + of_nat i * step_bps"
  shows "heads k a sb step_bps mx w (init sb) = Some s \<Longrightarrow> k \<le> n \<Longrightarrow>
     current s = sb + of_nat k * step_bps \<and>
     map target_bps (steps s) = map (\<lambda>i. sb + of_nat i * step_bps) [0..<k]"
proof (induction k arbitrary: s)
  case 0
  then show ?case by (auto simp: init_def)
next
  case (Suc k)
  from heads_unsnoc [OF Suc.prems(1)] obtain s0 where
    h: "heads k a sb step_bps mx w (init sb) = Some s0"
    and b: "loop_body a sb step_bps w s0 = Continue s"
    by blast
  have g: "current s0 = sb + of_nat k * step_bps"
    "map target_bps (steps s0) = map (\<lambda>i. sb + of_nat i * step_bps) [0..<k]"
    using Suc.IH [OF h] Suc.prems(2) by simp_all
  have e0: "fl (sb + of_nat k * step_bps) = sb + of_nat k * step_bps"
    using assms(2) [of k] Suc.prems(2) by simp
  have e1: "fl (sb + of_nat k * step_bps + step_bps) = sb + of_nat k * step_bps + step_bps"
    using assms(2) [of "Suc k"] Suc.prems(2) by (simp add: algebra_simps)
  have c: "current s = fadd (current s0) step_bps"
    and t: "steps s = steps s0 @ [(new_step (current s0) (bps_to_str (current s0)) Normal)
        \<lparr>measured := measured (last (steps s)), cmd := cmd (last (steps s)), ok := True\<rparr>]"
    using loop_body_Continue [OF b] by auto
  have "target_bps (last (steps s)) = current s0"
    by (subst t) (simp add: new_step_def)
  then have "map target_bps (steps s) = map target_bps (steps s0) @ [current s0]"
    by (subst t) (simp add: new_step_def)
  moreover have "current s = sb + of_nat (Suc k) * step_bps"
    unfolding c g fadd_def e0 assms(1) e1 by (simp add: algebra_simps)
  ultimately show ?case using g by simp
qed



lemma all_pass_accepted:
  "accepted scenario_args prev (run_iperf scenario_args all_pass n b)"
  by (simp add: accepted_def run_iperf_def all_pass_def within_bounds_def extract_udp_stats_def
      report_def scenario_args_def tenth_value Let_def split: option.split)




lemma zero_step_never_ends:
  "current s = 2000000000 \<Longrightarrow>
   ramp n scenario_args sb 0 10000000000 all_pass s = None"
proof (induction n arbitrary: s)
  case 0
  show ?case by simp
next
  case (Suc n)
  have c: "current s \<le> fadd 10000000000 1"
    unfolding Suc.prems sample_floats by simp
  obtain d c' where
    d: "run_iperf scenario_args all_pass (calls s) (bps_to_str (current s)) = Data d c'"
    and wb: "within_bounds scenario_args (prev_throughput s) (extract_udp_stats d)"
    using all_pass_accepted [of "prev_throughput s" "calls s" "bps_to_str (current s)"]
    by (auto simp: accepted_def split: iperf_result.splits)
  from loop_body_accept [OF d wb, of sb 0] obtain s' where
    b: "loop_body scenario_args sb 0 all_pass s = Continue s'"
    and "current s' = fadd (current s) 0"
    by simp
  then have "current s' = 2000000000"
    unfolding Suc.prems sample_floats by simp
  from Suc.IH [OF this] show ?case using c b by simp
qed

text \<open>
  With a positive step that the float addition absorbs, the target does not move either:
  start 1e16, step 1, max 1e16.
\<close>

lemma absorbed_step:
  "fadd 10000000000000000 1 = 10000000000000000 \<and>
   map_option targets_recorded
     (heads 2 scenario_args 10000000000000000 1 10000000000000000 all_pass
        (init 10000000000000000))
     = Some [10000000000000000, 10000000000000000]"
  by code_simp

subsection \<open>Termination\<close>

text \<open>
  With a positive step and exact float arithmetic on the grid the loop ends, whatever the
  probes return: every pass either breaks or moves \<open>current\<close> one step along the grid. The
  results that start from "the session has ended" therefore speak of every such session.
\<close>

lemma ramp_ends_on_grid:
  assumes "0 < step_bps" and "fl step_bps = step_bps" and "fl mx = mx" and "fl (mx + 1) = mx + 1"
    and "\<And>i. i \<le> ramp_count sb step_bps mx \<Longrightarrow>
           fl (sb + of_nat i * step_bps) = sb + of_nat i * step_bps"
  shows "\<exists>r. ramp (Suc (ramp_count sb step_bps mx)) a sb step_bps mx w (init sb) = Some r"
proof -
  let ?n = "ramp_count sb step_bps mx"
  have b: "fadd mx 1 = mx + 1"
    by (simp add: fadd_def assms(3,4) sample_floats)
  have step: "k \<le> ?n \<Longrightarrow> (\<exists>s. heads k a sb step_bps mx w (init sb) = Some s) \<or>
      (\<exists>r. ramp (Suc ?n) a sb step_bps mx w (init sb) = Some r)" for k
  proof (induction k)
    case 0
    show ?case by simp
  next
    case (Suc k)
    then consider s where "heads k a sb step_bps mx w (init sb) = Some s"
      | r where "ramp (Suc ?n) a sb step_bps mx w (init sb) = Some r"
      by auto
    then show ?case
    proof cases
      case 2
      then show ?thesis by blast
    next
      case 1
      have "k \<le> ?n" using Suc.prems by simp
      from heads_grid [OF assms(2) assms(5) 1 this]
      have g: "current s = sb + of_nat k * step_bps" by simp
      have "k < ?n" using Suc.prems by simp
      then have c: "current s \<le> fadd mx 1"
        unfolding b g using ramp_count_iff [OF assms(1)] by simp
      show ?thesis
      proof (cases "loop_body a sb step_bps w s")
        case (Continue s')
        from heads_snoc [OF 1 c Continue] show ?thesis by blast
      next
        case (Break r)
        have "ramp (k + Suc (?n - k)) a sb step_bps mx w (init sb) =
            ramp (Suc (?n - k)) a sb step_bps mx w s"
          by (rule heads_ramp [OF 1])
        moreover have "k + Suc (?n - k) = Suc ?n" using \<open>k \<le> ?n\<close> by simp
        ultimately have "ramp (Suc ?n) a sb step_bps mx w (init sb) = Some r"
          using c Break by simp
        then show ?thesis by blast
      qed
    qed
  qed
  from step [of ?n] consider s where "heads ?n a sb step_bps mx w (init sb) = Some s"
    | r where "ramp (Suc ?n) a sb step_bps mx w (init sb) = Some r"
    by auto
  then show ?thesis
  proof cases
    case 2
    then show ?thesis by blast
  next
    case 1
    from heads_grid [OF assms(2) assms(5) 1]
    have g: "current s = sb + of_nat ?n * step_bps" by simp
    have "\<not> ?n < ?n" by simp
    then have past: "\<not> current s \<le> fadd mx 1"
      unfolding b g ramp_count_iff [OF assms(1)] .
    have "ramp (?n + 1) a sb step_bps mx w (init sb) = ramp 1 a sb step_bps mx w s"
      by (rule heads_ramp [OF 1])
    then show ?thesis using past by simp
  qed
qed

lemma session_terminates:
  assumes "parse_bps (start a) = Some (Finite start_bps)"
    and "parse_bps (step a) = Some (Finite step_bps)"
    and "parse_bps (max_bps a) = Some (Finite mx)"
    and "0 < step_bps" and "fl step_bps = step_bps" and "fl mx = mx" and "fl (mx + 1) = mx + 1"
    and "\<And>i. i \<le> ramp_count start_bps step_bps mx \<Longrightarrow>
           fl (start_bps + of_nat i * step_bps) = start_bps + of_nat i * step_bps"
  shows "\<exists>out. main (Suc (ramp_count start_bps step_bps mx)) a w now = Some (Inr out)"
proof -
  from ramp_ends_on_grid [OF assms(4-8)] obtain r where
    "ramp (Suc (ramp_count start_bps step_bps mx)) a start_bps step_bps mx w (init start_bps)
       = Some r" by blast
  from main_output [OF assms(1-3) this] show ?thesis by blast
qed

subsection \<open>The float model at work\<close>

text \<open>
  Inputs at which exact arithmetic and float arithmetic part: the drop bound at
  \<open>--drop-threshold 45\<close> with a baseline of 100 is 55.00000000000001, so a throughput of 55
  is rejected; \<open>1.001k\<close> parses to 1000.9999999999999; 2000500000 is written \<open>2.001G\<close>.
  \<open>float()\<close> takes underscores between digits and the spellings of infinity and nan, and
  does not strip U+001F.
\<close>

lemma drop_bound_rounds:
  "drop_bound (scenario_args\<lparr>drop_threshold := 45\<rparr>) 100 = 55 + 1 / 2 ^ 47"
  "dropped (scenario_args\<lparr>drop_threshold := 45\<rparr>) (Some 100) (Some 55)"
  by code_simp+

lemma codec_examples:
  "parse_bps ''1_000'' = Some (Finite 1000)"
  "parse_bps ''1__000'' = None"
  "parse_bps ''inf'' = Some NonFinite"
  "parse_bps ''-Infinity'' = Some NonFinite"
  "parse_bps ''nan'' = Some NonFinite"
  "parse_bps [CHR ''1'', CHR 0x1F, CHR ''k''] = None"
  "parse_bps [CHR ''1'', CHR '' '', CHR ''k''] = Some (Finite 1000)"
  "parse_bps ''1.001k'' = Some (Finite (8804889115230207 / 8796093022208))"
  "parse_bps ''2.5G'' = Some (Finite 2500000000)"
  "parse_bps ''abc'' = None"
  "bps_to_str 2000500000 = ''2.001G''"
  "bps_to_str 999 = ''999''"
  by code_simp+

end
